(* ===== verification/Prelude.thy ===== *)
theory Prelude
  imports Main "HOL-Library.AList"
begin

section \<open>Shared vocabulary: exceptions, results, Python strings and dictionaries\<close>

text \<open>
  What every component of the library uses: the exceptions the package raises or catches, a
  state-and-exception result type with its two combinators, the string methods of Python on
  lists of characters, decimal printing, and dictionaries in insertion order (association lists
  with \<open>AList.update\<close>). Strings are lists of 8-bit characters; where the source decodes
  bytes to text the components use lists of code points, for which the same polymorphic
  functions serve.
\<close>

named_theorems io_defs \<comment> \<open>unfolding rules of the state-and-exception combinators\<close>
named_theorems txt_simps \<comment> \<open>evaluation rules of the string methods\<close>

subsection \<open>Exceptions\<close>

text \<open>
  The arguments every \<open>BoschCameraError\<close> carries (\<open>cameras.py\<close>): its message and, for an
  error that stems from an HTTP answer, the status and the first 200 characters of the body.
\<close>

record err_info =
  ei_msg :: string
  ei_status :: "int option"
  ei_body :: "string option"

text \<open>
  Python's and aiohttp's exceptions that some handler of the package distinguishes, and the
  package's own. \<open>ClientError m n\<close> is an \<open>aiohttp.ClientError\<close> whose \<open>str\<close> is \<open>m\<close>
  and whose class name is \<open>n\<close>; \<open>OtherError\<close> is every exception no handler names (it is
  caught by \<open>except Exception\<close> only).
\<close>

datatype exn =
    TimeoutError
  | ClientError string string
  | ValueError string
  | OverflowError
  | KeyError
  | TypeError
  | OSError
  | OtherError string
  | BoschCameraAuthError err_info
  | BoschCameraConnectionError err_info
  | BoschCameraPrivacyModeError err_info
  | BoschCameraInvalidResponseError err_info

definition plain_info :: "string \<Rightarrow> err_info" where
  "plain_info m = \<lparr>ei_msg = m, ei_status = None, ei_body = None\<rparr>"

definition http_info :: "string \<Rightarrow> int \<Rightarrow> string option \<Rightarrow> err_info" where
  "http_info m s b = \<lparr>ei_msg = m, ei_status = Some s, ei_body = b\<rparr>"

text \<open>The handler \<open>except (TimeoutError, aiohttp.ClientError)\<close>, and \<open>str(err) or type(err).__name__\<close>.\<close>

fun is_net_error :: "exn \<Rightarrow> bool" where
  "is_net_error TimeoutError = True"
| "is_net_error (ClientError _ _) = True"
| "is_net_error _ = False"

fun is_value_error :: "exn \<Rightarrow> bool" where
  "is_value_error (ValueError _) = True"
| "is_value_error _ = False"

fun net_error_text :: "exn \<Rightarrow> string" where
  "net_error_text TimeoutError = ''TimeoutError''"
| "net_error_text (ClientError m n) = (if m = [] then n else m)"
| "net_error_text _ = []"

lemma is_net_error_iff: "is_net_error e \<longleftrightarrow> e = TimeoutError \<or> (\<exists>m n. e = ClientError m n)"
  by (cases e) auto

lemma is_value_error_iff: "is_value_error e \<longleftrightarrow> (\<exists>m. e = ValueError m)"
  by (cases e) auto

subsection \<open>Effects: a state and an exception\<close>

text \<open>
  A coroutine is a function from the state it shares with its environment to its outcome (the
  exception it raises or the value it returns) and the state it leaves.
\<close>

type_synonym ('s, 'a) io = "'s \<Rightarrow> (exn + 'a) \<times> 's"

definition ret :: "'a \<Rightarrow> ('s, 'a) io" where
  [io_defs]: "ret x = (\<lambda>w. (Inr x, w))"

definition raise :: "exn \<Rightarrow> ('s, 'a) io" where
  [io_defs]: "raise e = (\<lambda>w. (Inl e, w))"

definition lift :: "exn + 'a \<Rightarrow> ('s, 'a) io" where
  [io_defs]: "lift r = (\<lambda>w. (r, w))"

definition bind_io :: "('s, 'a) io \<Rightarrow> ('a \<Rightarrow> ('s, 'b) io) \<Rightarrow> ('s, 'b) io" where
  [io_defs]: "bind_io m f = (\<lambda>w. case m w of (Inl e, w') \<Rightarrow> (Inl e, w') | (Inr x, w') \<Rightarrow> f x w')"

definition catch_io :: "('s, 'a) io \<Rightarrow> (exn \<Rightarrow> ('s, 'a) io) \<Rightarrow> ('s, 'a) io" where
  [io_defs]: "catch_io m h = (\<lambda>w. case m w of (Inl e, w') \<Rightarrow> h e w' | (Inr x, w') \<Rightarrow> (Inr x, w'))"

lemma bind_io_ret [simp]: "bind_io (ret x) f = f x"
  by (simp add: io_defs)

lemma bind_io_raise [simp]: "bind_io (raise e) f = raise e"
  by (simp add: io_defs)

lemma bind_io_assoc: "bind_io (bind_io m f) g = bind_io m (\<lambda>x. bind_io (f x) g)"
  by (auto simp: io_defs split: sum.splits prod.splits)

lemma catch_io_ret [simp]: "catch_io (ret x) h = ret x"
  by (simp add: io_defs)

lemma bind_io_Inr:
  "m w = (Inr x, w') \<Longrightarrow> bind_io m f w = f x w'"
  by (simp add: io_defs)

lemma bind_io_Inl:
  "m w = (Inl e, w') \<Longrightarrow> bind_io m f w = (Inl e, w')"
  by (simp add: io_defs)

lemma bind_io_Inr_iff:
  "bind_io m f w = (Inr y, w') \<longleftrightarrow> (\<exists>x w1. m w = (Inr x, w1) \<and> f x w1 = (Inr y, w'))"
  by (auto simp: io_defs split: sum.splits prod.splits)

lemma catch_io_Inr:
  "m w = (Inr x, w') \<Longrightarrow> catch_io m h w = (Inr x, w')"
  by (simp add: io_defs)

lemma catch_io_Inl:
  "m w = (Inl e, w') \<Longrightarrow> catch_io m h w = h e w'"
  by (simp add: io_defs)

subsection \<open>String methods on lists of characters\<close>

definition starts_with :: "'a list \<Rightarrow> 'a list \<Rightarrow> bool" where
  [txt_simps]: "starts_with p s \<longleftrightarrow> take (length p) s = p"

definition ends_with :: "'a list \<Rightarrow> 'a list \<Rightarrow> bool" where
  [txt_simps]: "ends_with d s \<longleftrightarrow> length d \<le> length s \<and> drop (length s - length d) s = d"

fun contains :: "'a list \<Rightarrow> 'a list \<Rightarrow> bool" where
  "contains p [] \<longleftrightarrow> p = []"
| "contains p (x # xs) \<longleftrightarrow> starts_with p (x # xs) \<or> contains p xs"

lemma starts_with_iff: "starts_with p s \<longleftrightarrow> (\<exists>v. s = p @ v)"
  unfolding starts_with_def by (metis append_eq_conv_conj append_take_drop_id)

lemma contains_iff: "contains p s \<longleftrightarrow> (\<exists>u v. s = u @ p @ v)"
proof (induction s)
  case (Cons x s)
  show ?case
  proof
    assume "contains p (x # s)"
    with Cons obtain u v where "x # s = u @ p @ v \<or> x # s = (x # u) @ p @ v"
      by (auto simp: starts_with_iff) (metis append_Nil)
    then show "\<exists>u v. x # s = u @ p @ v" by blast
  next
    assume "\<exists>u v. x # s = u @ p @ v"
    then obtain u v where "x # s = u @ p @ v" by blast
    then have "starts_with p (x # s) \<or> (\<exists>u v. s = u @ p @ v)"
      by (cases u) (auto simp: starts_with_iff)
    with Cons show "contains p (x # s)" by simp
  qed
qed simp

definition lstrip :: "('a \<Rightarrow> bool) \<Rightarrow> 'a list \<Rightarrow> 'a list" where
  [txt_simps]: "lstrip ws = dropWhile ws"

definition rstrip :: "('a \<Rightarrow> bool) \<Rightarrow> 'a list \<Rightarrow> 'a list" where
  [txt_simps]: "rstrip ws s = rev (dropWhile ws (rev s))"

definition strip :: "('a \<Rightarrow> bool) \<Rightarrow> 'a list \<Rightarrow> 'a list" where
  [txt_simps]: "strip ws s = rstrip ws (lstrip ws s)"

text \<open>\<open>s.split(c)\<close> for a one-character separator, \<open>c.join(parts)\<close>, \<open>s.partition(c)\<close>.\<close>

fun split_on :: "'a \<Rightarrow> 'a list \<Rightarrow> 'a list list" where
  "split_on c [] = [[]]"
| "split_on c (x # xs) =
     (if x = c then [] # split_on c xs
      else (case split_on c xs of [] \<Rightarrow> [[x]] | y # ys \<Rightarrow> (x # y) # ys))"

fun join_with :: "'a list \<Rightarrow> 'a list list \<Rightarrow> 'a list" where
  "join_with sep [] = []"
| "join_with sep [s] = s"
| "join_with sep (s # t # ts) = s @ sep @ join_with sep (t # ts)"

definition partition_on :: "'a \<Rightarrow> 'a list \<Rightarrow> 'a list \<times> 'a list \<times> 'a list" where
  "partition_on c s =
     (let a = takeWhile (\<lambda>x. x \<noteq> c) s
      in if length a = length s then (s, [], []) else (a, [c], drop (Suc (length a)) s))"

lemma split_on_nonempty [simp]: "split_on c s \<noteq> []"
  by (cases s) (auto split: list.splits)

lemma split_on_none: "c \<notin> set s \<Longrightarrow> split_on c s = [s]"
  by (induction s) auto

lemma split_on_join: "split_on c (a @ c # b) = split_on c a @ split_on c b"
proof (induction a)
  case (Cons x a)
  obtain y ys where "split_on c a = y # ys" by (cases "split_on c a") auto
  with Cons show ?case by auto
qed simp

lemma split_on_append: "c \<notin> set a \<Longrightarrow> split_on c (a @ c # b) = a # split_on c b"
  by (simp add: split_on_join split_on_none)

lemma hd_split_on: "hd (split_on c s) = takeWhile (\<lambda>x. x \<noteq> c) s"
  by (induction s) (auto split: list.splits)

text \<open>\<open>s.replace(old, new)\<close> for a non-empty \<open>old\<close>: leftmost, non-overlapping.\<close>

function replace_all :: "'a list \<Rightarrow> 'a list \<Rightarrow> 'a list \<Rightarrow> 'a list" where
  "replace_all old new [] = []"
| "replace_all old new (x # xs) =
     (if old \<noteq> [] \<and> starts_with old (x # xs) then new @ replace_all old new (drop (length old) (x # xs))
      else x # replace_all old new xs)"
  by pat_completeness auto
termination
  by (relation "measure (\<lambda>(old, new, s). length s)") (auto simp: neq_Nil_conv)

lemma takeWhile_neq_all [simp]: "c \<notin> set a \<Longrightarrow> takeWhile (\<lambda>x. x \<noteq> c) a = a"
  by (auto simp: takeWhile_eq_all_conv)

lemma takeWhile_neq_upto [simp]: "c \<notin> set a \<Longrightarrow> takeWhile (\<lambda>x. x \<noteq> c) (a @ c # b) = a"
  by (induction a) auto

lemma partition_on_append: "c \<notin> set a \<Longrightarrow> partition_on c (a @ c # b) = (a, [c], b)"
  by (simp add: partition_on_def Let_def)

lemma partition_on_none: "c \<notin> set a \<Longrightarrow> partition_on c a = (a, [], [])"
  by (simp add: partition_on_def Let_def)

subsection \<open>ASCII classes and case\<close>

definition code :: "char \<Rightarrow> nat" where
  "code c = of_char c"

definition is_digit :: "char \<Rightarrow> bool" where
  "is_digit c \<longleftrightarrow> 48 \<le> code c \<and> code c \<le> 57"

definition is_upper :: "char \<Rightarrow> bool" where
  "is_upper c \<longleftrightarrow> 65 \<le> code c \<and> code c \<le> 90"

definition is_lower :: "char \<Rightarrow> bool" where
  "is_lower c \<longleftrightarrow> 97 \<le> code c \<and> code c \<le> 122"

definition is_alpha :: "char \<Rightarrow> bool" where
  "is_alpha c \<longleftrightarrow> is_upper c \<or> is_lower c"

definition to_lower :: "char \<Rightarrow> char" where
  "to_lower c = (if is_upper c then char_of (code c + 32) else c)"

definition to_upper :: "char \<Rightarrow> char" where
  "to_upper c = (if is_lower c then char_of (code c - 32) else c)"

definition lower :: "string \<Rightarrow> string" where
  "lower s = map to_lower s"

definition upper :: "string \<Rightarrow> string" where
  "upper s = map to_upper s"

text \<open>The white space \<open>str.strip()\<close> removes, for 8-bit characters.\<close>

definition is_space :: "char \<Rightarrow> bool" where
  "is_space c \<longleftrightarrow> code c \<in> {9, 10, 11, 12, 13, 28, 29, 30, 31, 32, 133, 160}"

definition py_strip :: "string \<Rightarrow> string" where
  "py_strip s = strip is_space s"

lemmas char_class_defs =
  code_def is_digit_def is_upper_def is_lower_def is_alpha_def to_lower_def to_upper_def
  lower_def upper_def is_space_def py_strip_def

declare char_class_defs [txt_simps]

subsection \<open>Decimal printing\<close>

fun nat_str :: "nat \<Rightarrow> string" where
  "nat_str n = (if n < 10 then [char_of (48 + n)] else nat_str (n div 10) @ [char_of (48 + n mod 10)])"

declare nat_str.simps [simp del]

definition int_str :: "int \<Rightarrow> string" where
  "int_str i = (if i < 0 then CHR ''-'' # nat_str (nat (- i)) else nat_str (nat i))"

lemma nat_str_digits: "list_all is_digit (nat_str n) \<and> nat_str n \<noteq> []"
proof (induction n rule: nat_str.induct)
  case (1 n)
  have "is_digit (char_of (48 + d))" if "d < 10" for d :: nat using that by (simp add: is_digit_def code_def)
  then show ?case using 1 by (subst (1 2) nat_str.simps) auto
qed

subsection \<open>Dictionaries in insertion order\<close>

type_synonym ('k, 'v) dict = "('k \<times> 'v) list"

text \<open>\<open>d.get(k)\<close>, \<open>d[k] = v\<close> (a present key keeps its place), \<open>{**d, **e}\<close>, \<open>d.pop(k, None)\<close>.\<close>

definition dict_get :: "('k, 'v) dict \<Rightarrow> 'k \<Rightarrow> 'v option" where
  "dict_get d k = map_of d k"

definition dict_set :: "'k \<Rightarrow> 'v \<Rightarrow> ('k, 'v) dict \<Rightarrow> ('k, 'v) dict" where
  "dict_set k v d = AList.update k v d"

fun dict_merge :: "('k, 'v) dict \<Rightarrow> ('k, 'v) dict \<Rightarrow> ('k, 'v) dict" where
  "dict_merge d [] = d"
| "dict_merge d ((k, v) # e) = dict_merge (dict_set k v d) e"

definition dict_pop :: "'k \<Rightarrow> ('k, 'v) dict \<Rightarrow> ('k, 'v) dict" where
  "dict_pop k d = AList.delete k d"

end
