(* ===== verification/PyFloat.thy ===== *)
theory PyFloat
  imports Prelude Complex_Main
begin

section \<open>Python floats\<close>

text \<open>
  A Python float is an IEEE 754 binary64 value: not a number, an infinity, or a finite value,
  which is modelled as the rational number it denotes (the two zeros are one). The operations the
  package performs on floats are conversions from integers and integer quotients and rounding to
  whole numbers or to a few decimals; each is the exact rational result rounded once, to nearest
  with ties to even, as the standard prescribes. Clock readings of \<open>time.monotonic()\<close> are exact
  rationals in the components that use them.
\<close>

datatype pyfloat = NaN | PosInf | NegInf | Fin rat

definition is_finite :: "pyfloat \<Rightarrow> bool" where
  "is_finite x \<longleftrightarrow> (case x of Fin _ \<Rightarrow> True | _ \<Rightarrow> False)"

lemma is_finite_simps [simp]: "is_finite (Fin q)" "\<not> is_finite NaN" "\<not> is_finite PosInf" "\<not> is_finite NegInf"
  by (simp_all add: is_finite_def)

subsection \<open>Rounding to an integer, ties to even\<close>

definition round_half_even :: "rat \<Rightarrow> int" where
  "round_half_even q =
     (let f = \<lfloor>q\<rfloor>; r = q - of_int f in
      if r < 1 / 2 then f else if 1 / 2 < r then f + 1 else if even f then f else f + 1)"

lemma round_half_even_int [simp]: "round_half_even (of_int n) = n"
  by (simp add: round_half_even_def)

lemma round_half_even_error: "\<bar>of_int (round_half_even q) - q\<bar> \<le> 1 / 2"
proof -
  have "0 \<le> q - of_int \<lfloor>q\<rfloor>" "q - of_int \<lfloor>q\<rfloor> < 1" by linarith+
  then show ?thesis by (auto simp: round_half_even_def Let_def abs_le_iff)
qed

lemma round_half_even_mono_int: "of_int a \<le> q \<Longrightarrow> a \<le> round_half_even q"
proof -
  assume "of_int a \<le> q"
  then have "a \<le> \<lfloor>q\<rfloor>" by (simp add: le_floor_iff)
  then show ?thesis by (auto simp: round_half_even_def Let_def)
qed

lemma round_half_even_le_int: "q \<le> of_int a \<Longrightarrow> round_half_even q \<le> a"
proof (cases "q = of_int a")
  case False
  assume "q \<le> of_int a"
  with False have "\<lfloor>q\<rfloor> < a" by (simp add: floor_less_iff)
  then show ?thesis by (auto simp: round_half_even_def Let_def)
qed simp

subsection \<open>Rounding to binary64\<close>

fun bit_len :: "nat \<Rightarrow> nat" where
  "bit_len n = (if n = 0 then 0 else Suc (bit_len (n div 2)))"

declare bit_len.simps [simp del]

definition pow2 :: "int \<Rightarrow> rat" where
  "pow2 e = power_int 2 e"

text \<open>
  The exponent of the unit in the last place: the mantissa of a normal number has 53 bits, and
  no exponent is below that of the smallest subnormal.
\<close>

definition ulp_exp :: "rat \<Rightarrow> int" where
  "ulp_exp q =
     (let (n, d) = quotient_of q; e = int (bit_len (nat n)) - int (bit_len (nat d)) in
      max (if q < pow2 e then e - 53 else e - 52) (-1074))"

definition fl_pos :: "rat \<Rightarrow> rat" where
  "fl_pos q = (let p = ulp_exp q in of_int (round_half_even (q / pow2 p)) * pow2 p)"

text \<open>The nearest binary64 value; \<open>OverflowError\<close> beyond the largest finite one.\<close>

definition to_float :: "rat \<Rightarrow> exn + pyfloat" where
  "to_float q =
     (if q = 0 then Inr (Fin 0)
      else let r = fl_pos \<bar>q\<bar> in
        if 2 ^ 1024 \<le> r then Inl OverflowError else Inr (Fin (if q < 0 then - r else r)))"

text \<open>\<open>float(n)\<close> and \<open>math.isfinite(n)\<close> of a Python integer, \<open>a / b\<close> of two, \<open>round(x, k)\<close> of a finite float.\<close>

definition float_of_int :: "int \<Rightarrow> exn + pyfloat" where
  "float_of_int n = to_float (of_int n)"

definition int_true_div :: "int \<Rightarrow> int \<Rightarrow> exn + pyfloat" where
  "int_true_div a b = to_float (of_int a / of_int b)"

definition round_places :: "nat \<Rightarrow> rat \<Rightarrow> exn + pyfloat" where
  "round_places k q = to_float (of_int (round_half_even (q * 10 ^ k)) / 10 ^ k)"

subsection \<open>Rounding errors, and small integers are exact\<close>

lemma pow2_pos [simp]: "0 < pow2 e"
  by (simp add: pow2_def)

lemma pow2_add: "pow2 (a + b) = pow2 a * pow2 b"
  by (simp add: pow2_def power_int_add)

lemma pow2_diff: "pow2 (a - b) = pow2 a / pow2 b"
  by (simp add: pow2_def power_int_diff)

lemma pow2_nat: "pow2 (int k) = 2 ^ k"
  by (simp add: pow2_def)

lemma pow2_less_iff [simp]: "pow2 a < pow2 b \<longleftrightarrow> a < b"
  unfolding pow2_def using power_int_strict_increasing [of a b "2::rat"] power_int_increasing [of b a "2::rat"]
  by (cases "a < b") auto

lemma bit_len_bounds: "0 < n \<Longrightarrow> 2 ^ (bit_len n - 1) \<le> n \<and> n < 2 ^ bit_len n \<and> 0 < bit_len n"
proof (induction n rule: bit_len.induct)
  case (1 n)
  show ?case
  proof (cases "n = 1")
    case True
    then show ?thesis by (simp add: bit_len.simps)
  next
    case False
    with 1 have IH: "2 ^ (bit_len (n div 2) - 1) \<le> n div 2" "n div 2 < 2 ^ bit_len (n div 2)" "0 < bit_len (n div 2)"
      by auto
    then obtain k where k: "bit_len (n div 2) = Suc k" by (cases "bit_len (n div 2)") auto
    have "bit_len n = Suc (Suc k)" using "1.prems" k by (subst bit_len.simps) simp
    have "n = 2 * (n div 2) + n mod 2" "n mod 2 < 2" by simp_all
    with IH(1,2) k have "2 * 2 ^ k \<le> n" "n < 4 * 2 ^ k" by simp_all
    with \<open>bit_len n = _\<close> show ?thesis by simp
  qed
qed

lemma ulp_exp_le:
  assumes "0 < q"
  shows "pow2 (ulp_exp q) \<le> max (q / 2 ^ 52) (pow2 (- 1074))"
proof -
  obtain n d where nd: "quotient_of q = (n, d)" by (cases "quotient_of q")
  have d: "0 < d" using quotient_of_denom_pos [OF nd] .
  have q: "q = of_int n / of_int d" using quotient_of_div [OF nd] .
  with assms d have n: "0 < n" by (simp add: zero_less_divide_iff)
  define a b where ab: "a = bit_len (nat n)" "b = bit_len (nat d)"
  have "2 ^ (a - 1) \<le> nat n" "nat n < 2 ^ a" "0 < a" "nat d < 2 ^ b"
    using bit_len_bounds [of "nat n"] bit_len_bounds [of "nat d"] n d by (auto simp: ab)
  then have bnd: "2 ^ (a - 1) \<le> n" "d < 2 ^ b"
    using n d by (auto simp: nat_less_iff le_nat_iff)
  have "pow2 (int a - int b - 1) = pow2 (int (a - 1)) / pow2 (int b)"
    using \<open>0 < a\<close> by (simp flip: pow2_diff add: of_nat_diff algebra_simps)
  also have "\<dots> = of_int (2 ^ (a - 1)) / of_int (2 ^ b)" unfolding pow2_nat by simp
  also have "\<dots> \<le> of_int n / of_int d"
    using bnd d n by (intro frac_le) (simp_all only: of_int_le_iff of_int_0_less_iff of_int_0_le_iff less_imp_le)
  finally have low: "pow2 (int a - int b - 1) \<le> q" using q by simp
  define e where "e = int a - int b"
  have "pow2 (if q < pow2 e then e - 53 else e - 52) \<le> q / 2 ^ 52"
  proof (cases "q < pow2 e")
    case True
    have "pow2 (e - 53) = pow2 (e - 1) / 2 ^ 52" using pow2_diff [of "e - 1" 52] by (simp add: pow2_def)
    with True low show ?thesis by (simp add: e_def divide_right_mono)
  next
    case False
    have "pow2 (e - 52) = pow2 e / 2 ^ 52" using pow2_diff [of e 52] by (simp add: pow2_def)
    with False show ?thesis by (simp add: divide_right_mono)
  qed
  then show ?thesis
    unfolding ulp_exp_def nd Let_def prod.case e_def [symmetric] ab [symmetric]
    by (auto simp: max_def e_def ab)
qed

lemma fl_pos_error: "0 < q \<Longrightarrow> \<bar>fl_pos q - q\<bar> \<le> pow2 (ulp_exp q) / 2"
proof -
  define p where "p = ulp_exp q"
  have "fl_pos q - q = (of_int (round_half_even (q / pow2 p)) - q / pow2 p) * pow2 p"
    unfolding fl_pos_def Let_def p_def [symmetric]
    using pow2_pos [of p] by (simp add: left_diff_distrib less_imp_neq [symmetric])
  also have "\<bar>\<dots>\<bar> = \<bar>of_int (round_half_even (q / pow2 p)) - q / pow2 p\<bar> * pow2 p"
    using pow2_pos [of p] by (simp add: abs_mult abs_of_pos)
  also have "\<dots> \<le> 1 / 2 * pow2 p"
    by (intro mult_right_mono round_half_even_error) (rule less_imp_le [OF pow2_pos])
  finally show ?thesis by (simp add: p_def)
qed

lemma fl_pos_small_int:
  assumes "0 < n" "n < 2 ^ 53"
  shows "fl_pos (of_int n) = of_int n"
proof -
  define p where "p = ulp_exp (of_int n)"
  have "(of_int n :: rat) / 2 ^ 52 < 2"
  proof -
    have "(of_int n :: rat) < of_int (2 ^ 53)" using assms by (simp only: of_int_less_iff)
    then show ?thesis by simp
  qed
  moreover have "pow2 (- 1074) < pow2 1" by (simp only: pow2_less_iff)
  moreover have "pow2 1 = 2" by (simp add: pow2_def)
  ultimately have "pow2 p < pow2 1"
    using ulp_exp_le [of "of_int n"] assms by (simp add: p_def)
  then have "p \<le> 0" by simp
  then have "pow2 (- p) = of_int (2 ^ nat (- p))"
    using pow2_nat [of "nat (- p)"] by simp
  then have "of_int n / pow2 p = of_int (n * 2 ^ nat (- p))"
    using pow2_diff [of 0 p] by (simp add: pow2_def)
  then have "round_half_even (of_int n / pow2 p) = n * 2 ^ nat (- p)"
    by (metis round_half_even_int)
  then show ?thesis
    using \<open>of_int n / pow2 p = _\<close> unfolding fl_pos_def Let_def p_def [symmetric]
    by (metis less_irrefl nonzero_divide_eq_eq pow2_pos)
qed

lemma float_of_small_int:
  assumes "\<bar>n\<bar> < 2 ^ 53"
  shows "float_of_int n = Inr (Fin (of_int n))"
proof (cases "n = 0")
  case True
  then show ?thesis by (simp add: float_of_int_def to_float_def)
next
  case False
  have fl: "fl_pos \<bar>of_int n\<bar> = of_int \<bar>n\<bar>"
    using fl_pos_small_int [of "\<bar>n\<bar>"] False assms by simp
  have "of_int \<bar>n\<bar> < (2 ^ 1024 :: rat)"
  proof -
    have "\<bar>n\<bar> < 2 ^ 1024"
      using assms power_strict_increasing [of 53 1024 "2::int"] by linarith
    then have "(of_int \<bar>n\<bar> :: rat) < of_int (2 ^ 1024)" by (simp only: of_int_less_iff)
    then show ?thesis by simp
  qed
  then show ?thesis using False fl
    by (auto simp: float_of_int_def to_float_def Let_def)
qed

text \<open>Numbers of moderate size survive the conversion up to a tiny error.\<close>

lemma to_float_close:
  assumes "\<bar>q\<bar> < 2 ^ 20"
  shows "\<exists>r. to_float q = Inr (Fin r) \<and> \<bar>r - q\<bar> \<le> 1 / 2 ^ 30"
proof (cases "q = 0")
  case True
  then show ?thesis by (simp add: to_float_def)
next
  case False
  define a where "a = \<bar>q\<bar>"
  have a: "0 < a" "a < 2 ^ 20" using False assms by (simp_all add: a_def)
  have "pow2 (- 1074) \<le> pow2 (- 32)" using pow2_less_iff [of "- 32" "- 1074"] by (simp add: not_less [symmetric])
  also have "pow2 (- 32) = 1 / 2 ^ 32" using pow2_diff [of 0 32] by (simp add: pow2_def)
  finally have "pow2 (- 1074) \<le> 1 / 2 ^ 32" .
  moreover have "a / 2 ^ 52 \<le> 1 / 2 ^ 32" using a by simp
  ultimately have "pow2 (ulp_exp a) \<le> 1 / 2 ^ 32" using ulp_exp_le [OF a(1)] by linarith
  then have err: "\<bar>fl_pos a - a\<bar> \<le> 1 / 2 ^ 30" using fl_pos_error [OF a(1)] by simp
  moreover have "(1 :: rat) / 2 ^ 30 \<le> 1" by simp
  ultimately have "fl_pos a < 2 ^ 20 + 1" using a(2) by linarith
  also have "\<dots> \<le> (2 :: rat) ^ 21" by simp
  also have "\<dots> \<le> 2 ^ 1024" by (rule power_increasing) simp_all
  finally have "\<not> 2 ^ 1024 \<le> fl_pos a" by simp
  then have "to_float q = Inr (Fin (if q < 0 then - fl_pos a else fl_pos a))"
    using False unfolding to_float_def Let_def a_def by (simp only: if_False)
  moreover have "\<bar>(if q < 0 then - fl_pos a else fl_pos a) - q\<bar> = \<bar>fl_pos a - a\<bar>"
    by (auto simp: a_def)
  ultimately show ?thesis using err by auto
qed

end
