(* ===== verification/Json.thy ===== *)
theory Json
  imports PyFloat
begin

section \<open>JSON values\<close>

text \<open>
  The Python object \<open>json.loads\<close> builds: null, a bool, an unbounded integer, a float, a string,
  a list or a dictionary in insertion order. The readers below are the package's own value
  checks on such objects (\<open>isinstance\<close> tests, with \<open>bool\<close> told apart from \<open>int\<close>) that more
  than one component uses.
\<close>

datatype json =
    JNull
  | JBool bool
  | JInt int
  | JFloat pyfloat
  | JStr string
  | JArr "json list"
  | JObj "(string \<times> json) list"

type_synonym obj = "(string, json) dict"

text \<open>\<open>d.get(k)\<close> of a JSON object: \<open>None\<close> where the key is absent, as for a null value.\<close>

definition get :: "obj \<Rightarrow> string \<Rightarrow> json" where
  "get d k = (case dict_get d k of None \<Rightarrow> JNull | Some v \<Rightarrow> v)"

definition as_obj :: "json \<Rightarrow> obj option" where
  "as_obj j = (case j of JObj d \<Rightarrow> Some d | _ \<Rightarrow> None)"

definition as_list :: "json \<Rightarrow> json list option" where
  "as_list j = (case j of JArr xs \<Rightarrow> Some xs | _ \<Rightarrow> None)"

text \<open>\<open>isinstance(value, str) and value\<close>: a string that is not empty.\<close>

definition nonempty_str :: "json \<Rightarrow> string option" where
  "nonempty_str j = (case j of JStr s \<Rightarrow> if s = [] then None else Some s | _ \<Rightarrow> None)"

definition as_bool :: "json \<Rightarrow> bool option" where
  "as_bool j = (case j of JBool b \<Rightarrow> Some b | _ \<Rightarrow> None)"

text \<open>\<open>value is True\<close>.\<close>

definition is_true :: "json \<Rightarrow> bool" where
  "is_true j \<longleftrightarrow> j = JBool True"

lemmas json_readers = get_def as_obj_def as_list_def nonempty_str_def as_bool_def is_true_def

lemma as_obj_Some [simp]: "as_obj j = Some d \<longleftrightarrow> j = JObj d"
  by (cases j) (auto simp: as_obj_def)

lemma as_list_Some [simp]: "as_list j = Some xs \<longleftrightarrow> j = JArr xs"
  by (cases j) (auto simp: as_list_def)

lemma nonempty_str_Some [simp]: "nonempty_str j = Some s \<longleftrightarrow> j = JStr s \<and> s \<noteq> []"
  by (cases j) (auto simp: nonempty_str_def)

lemma as_bool_Some [simp]: "as_bool j = Some b \<longleftrightarrow> j = JBool b"
  by (cases j) (auto simp: as_bool_def)

lemma as_simps [simp]: "as_obj (JObj d) = Some d" "as_list (JArr xs) = Some xs" "as_bool (JBool b) = Some b"
  by simp_all

subsection \<open>Merging objects\<close>

text \<open>A later value wins, every other key keeps its value: the law of \<open>{**current, **changes}\<close>.\<close>

lemma dict_get_set: "dict_get (dict_set k v d) j = (if j = k then Some v else dict_get d j)"
  by (simp add: dict_get_def dict_set_def AList.update_conv')

lemma map_of_dict_merge: "map_of (dict_merge d e) = map_of d ++ map_of (rev e)"
  by (induction d e rule: dict_merge.induct)
    (simp_all add: dict_set_def AList.update_conv' map_add_def fun_eq_iff split: option.splits)

lemma dict_get_merge:
  "dict_get (dict_merge d e) k = (case dict_get (rev e) k of Some v \<Rightarrow> Some v | None \<Rightarrow> dict_get d k)"
  by (simp add: dict_get_def map_of_dict_merge map_add_def split: option.splits)

lemma map_of_rev_distinct: "distinct (map fst e) \<Longrightarrow> map_of (rev e) = map_of e"
proof
  fix k
  assume d: "distinct (map fst e)"
  then have d': "distinct (map fst (rev e))" by (simp flip: rev_map)
  show "map_of (rev e) k = map_of e k"
    using map_of_eq_Some_iff [OF d, of k] map_of_eq_Some_iff [OF d', of k]
    by (metis not_Some_eq set_rev)
qed

lemma dict_get_merge_distinct:
  assumes "distinct (map fst e)"
  shows "dict_get (dict_merge d e) k = (case dict_get e k of Some v \<Rightarrow> Some v | None \<Rightarrow> dict_get d k)"
  unfolding dict_get_merge unfolding dict_get_def map_of_rev_distinct [OF assms] ..

lemma dict_get_pop: "dict_get (dict_pop k d) j = (if j = k then None else dict_get d j)"
  by (simp add: dict_get_def dict_pop_def AList.delete_conv')

lemma get_merge_frame:
  assumes "k \<notin> fst ` set e"
  shows "get (dict_merge d e) k = get d k"
proof -
  have "map_of (rev e) k = None" using assms by (simp add: map_of_eq_None_iff)
  then show ?thesis by (simp add: get_def dict_get_def map_of_dict_merge map_add_def)
qed

end
