(* ===== verification/Bytes.thy ===== *)
theory Bytes
  imports Prelude "HOL-Library.Word"
begin

section \<open>Byte strings: hexadecimal text and big-endian fields\<close>

text \<open>
  Python's \<open>bytes\<close> as lists of \<open>8 word\<close>, the two conversions to hexadecimal text
  (\<open>bytes.hex\<close>, \<open>bytes.fromhex\<close>), the \<open>struct.unpack\<close> formats the package uses
  (\<open>">H"\<close> and \<open>">I"\<close>), and a byte string seen as the list of its 8-bit characters,
  which is what a regular expression over \<open>bytes\<close> scans. The lemmas are the round trips
  and the ranges of the decoded fields.
\<close>

type_synonym byte = "8 word"
type_synonym bytes = "byte list"

subsection \<open>Bytes as characters\<close>

definition chr_of_byte :: "byte \<Rightarrow> char" where
  "chr_of_byte b = char_of (unat b)"

definition byte_of_chr :: "char \<Rightarrow> byte" where
  "byte_of_chr c = word_of_nat (code c)"

definition chars :: "bytes \<Rightarrow> string" where
  "chars bs = map chr_of_byte bs"

definition b_lit :: "string \<Rightarrow> bytes" where
  "b_lit s = map byte_of_chr s"

lemma unat_byte_less [simp]: "unat (b :: byte) < 256"
  using unsigned_less [of b, where ?'a = nat] by simp

lemma uint_byte_less [simp]: "uint (b :: byte) < 256"
  using unsigned_less [of b, where ?'a = int] by simp

lemma code_less [simp]: "code c < 256"
  by (simp add: code_def)

lemma code_chr_of_byte [simp]: "code (chr_of_byte b) = unat b"
  by (simp add: chr_of_byte_def code_def)

lemma byte_of_chr_of_byte [simp]: "byte_of_chr (chr_of_byte b) = b"
  by (simp add: byte_of_chr_def)

lemma unat_byte_of_chr [simp]: "unat (byte_of_chr c) = code c"
  by (simp add: byte_of_chr_def unat_of_nat)

lemma chr_of_byte_of_chr [simp]: "chr_of_byte (byte_of_chr c) = c"
  by (simp add: chr_of_byte_def) (simp add: code_def)

lemma chars_b_lit [simp]: "chars (b_lit s) = s"
  by (simp add: chars_def b_lit_def comp_def)

lemma b_lit_chars [simp]: "b_lit (chars bs) = bs"
  by (simp add: chars_def b_lit_def comp_def)

lemma chars_simps [simp]: "chars [] = []" "chars (b # bs) = chr_of_byte b # chars bs"
  "chars (xs @ ys) = chars xs @ chars ys" "length (chars bs) = length bs"
  "chars bs = [] \<longleftrightarrow> bs = []"
  by (simp_all add: chars_def)

subsection \<open>Hexadecimal text\<close>

definition hex_digit :: "nat \<Rightarrow> char" where
  "hex_digit n = (if n < 10 then char_of (48 + n) else char_of (87 + n))"

definition hex_val :: "char \<Rightarrow> nat option" where
  "hex_val c =
     (if is_digit c then Some (code c - 48)
      else if 97 \<le> code c \<and> code c \<le> 102 then Some (code c - 87)
      else if 65 \<le> code c \<and> code c \<le> 70 then Some (code c - 55)
      else None)"

definition is_hex :: "char \<Rightarrow> bool" where
  "is_hex c \<longleftrightarrow> hex_val c \<noteq> None"

fun to_hex :: "bytes \<Rightarrow> string" where
  "to_hex [] = []"
| "to_hex (b # bs) = hex_digit (unat b div 16) # hex_digit (unat b mod 16) # to_hex bs"

text \<open>
  \<open>bytes.fromhex\<close>: ASCII white space is skipped between bytes; an odd digit count or any other
  character raises \<open>ValueError\<close>.
\<close>

definition is_ascii_space :: "char \<Rightarrow> bool" where
  "is_ascii_space c \<longleftrightarrow> code c \<in> {9, 10, 11, 12, 13, 32}"

fun from_hex :: "string \<Rightarrow> exn + bytes" where
  "from_hex [] = Inr []"
| "from_hex [c] = (if is_ascii_space c then Inr [] else Inl (ValueError ''fromhex''))"
| "from_hex (c # d # cs) =
     (if is_ascii_space c then from_hex (d # cs)
      else case (hex_val c, hex_val d) of
        (Some h, Some l) \<Rightarrow>
          (case from_hex cs of Inl e \<Rightarrow> Inl e | Inr bs \<Rightarrow> Inr (word_of_nat (16 * h + l) # bs))
      | _ \<Rightarrow> Inl (ValueError ''fromhex''))"

lemma code_char_of [simp]: "n < 256 \<Longrightarrow> code (char_of n) = n"
  by (simp add: code_def)

lemma code_hex_digit: "n < 16 \<Longrightarrow> code (hex_digit n) = (if n < 10 then 48 + n else 87 + n)"
  by (simp add: hex_digit_def)

lemma hex_val_hex_digit [simp]: "n < 16 \<Longrightarrow> hex_val (hex_digit n) = Some n"
  by (simp add: hex_val_def is_digit_def code_hex_digit)

lemma is_hex_hex_digit [simp]: "n < 16 \<Longrightarrow> is_hex (hex_digit n)"
  by (simp add: is_hex_def)

lemma hex_digit_not_space [simp]: "n < 16 \<Longrightarrow> \<not> is_ascii_space (hex_digit n)"
  by (simp add: is_ascii_space_def code_hex_digit)

lemma from_hex_to_hex [simp]: "from_hex (to_hex bs) = Inr bs"
proof (induction bs)
  case Nil
  then show ?case by simp
next
  case (Cons b bs)
  have "unat b div 16 < 16" by (simp add: less_mult_imp_div_less)
  moreover have "16 * (unat b div 16) + unat b mod 16 = unat b" by simp
  ultimately show ?case using Cons by simp
qed

lemma length_to_hex [simp]: "length (to_hex bs) = 2 * length bs"
  by (induction bs) auto

lemma to_hex_append [simp]: "to_hex (xs @ ys) = to_hex xs @ to_hex ys"
  by (induction xs) auto

lemma to_hex_Nil_iff [simp]: "to_hex bs = [] \<longleftrightarrow> bs = []"
  by (cases bs) auto

lemma set_to_hex: "c \<in> set (to_hex bs) \<Longrightarrow> is_hex c"
proof (induction bs)
  case Nil
  then show ?case by simp
next
  case (Cons b bs)
  have "unat b div 16 < 16" by (simp add: less_mult_imp_div_less)
  with Cons show ?case by auto
qed

lemma from_hex_length: "from_hex s = Inr bs \<Longrightarrow> 2 * length bs \<le> length s"
  by (induction s arbitrary: bs rule: from_hex.induct) (fastforce split: if_splits option.splits sum.splits)+

lemma is_hex_not_space: "is_hex c \<Longrightarrow> \<not> is_ascii_space c"
  by (auto simp: is_hex_def hex_val_def is_digit_def is_ascii_space_def split: if_splits)

text \<open>Text made of hexadecimal digits only decodes exactly when its length is even.\<close>

lemma from_hex_digits:
  "\<forall>c \<in> set s. is_hex c \<Longrightarrow>
     (if even (length s) then \<exists>bs. from_hex s = Inr bs \<and> length bs = length s div 2
      else from_hex s = Inl (ValueError ''fromhex''))"
proof (induction s rule: from_hex.induct)
  case (3 c d cs)
  then have "\<not> is_ascii_space c" by (auto dest: is_hex_not_space)
  moreover from 3 obtain h l where "hex_val c = Some h" "hex_val d = Some l"
    by (auto simp: is_hex_def)
  ultimately show ?case using 3 by (cases "from_hex cs"; cases "even (length cs)") auto
qed (auto dest: is_hex_not_space)

subsection \<open>Big-endian fields\<close>

definition be16 :: "byte \<Rightarrow> byte \<Rightarrow> int" where
  "be16 a b = uint a * 256 + uint b"

definition be32 :: "byte \<Rightarrow> byte \<Rightarrow> byte \<Rightarrow> byte \<Rightarrow> int" where
  "be32 a b c d = ((uint a * 256 + uint b) * 256 + uint c) * 256 + uint d"

text \<open>The bytes of a 16-bit and of a 32-bit value, most significant first.\<close>

definition put16 :: "int \<Rightarrow> bytes" where
  "put16 v = [word_of_int (v div 256), word_of_int v]"

definition put32 :: "int \<Rightarrow> bytes" where
  "put32 v = [word_of_int (v div 16777216), word_of_int (v div 65536), word_of_int (v div 256), word_of_int v]"

lemma be16_range: "0 \<le> be16 a b \<and> be16 a b < 65536"
  unfolding be16_def
  using uint_byte_less [of a] uint_byte_less [of b] uint_ge_0 [of a] uint_ge_0 [of b]
  by (intro conjI; linarith)

lemma be32_be16: "be32 a b c d = be16 a b * 65536 + be16 c d"
  by (simp add: be32_def be16_def)

lemma be32_range: "0 \<le> be32 a b c d \<and> be32 a b c d < 4294967296"
  using be16_range [of a b] be16_range [of c d] unfolding be32_be16 by (intro conjI; linarith)

lemma uint_word_of_int_byte: "uint (word_of_int v :: byte) = v mod 256"
  by (simp add: uint_word_of_int)

lemma be16_put16: "0 \<le> v \<Longrightarrow> v < 65536 \<Longrightarrow> put16 v = [a, b] \<Longrightarrow> be16 a b = v"
  by (auto simp: put16_def be16_def uint_word_of_int_byte)

lemma put32_put16: "0 \<le> v \<Longrightarrow> put32 v = put16 (v div 65536) @ put16 (v mod 65536)"
proof -
  have "v div 65536 div 256 = v div 16777216"
    by (simp flip: zdiv_zmult2_eq)
  moreover have "(word_of_int (v mod 65536 div 256) :: byte) = word_of_int (v div 256)"
  proof (rule word_uint_eqI)
    have "v = v mod 65536 + 256 * (256 * (v div 65536))" by simp
    also have "\<dots> div 256 = 256 * (v div 65536) + v mod 65536 div 256"
      by (rule div_mult_self2) simp
    finally have "v div 256 = 256 * (v div 65536) + v mod 65536 div 256" .
    then have "v div 256 mod 256 = v mod 65536 div 256 mod 256" by simp
    then show "uint (word_of_int (v mod 65536 div 256) :: byte) = uint (word_of_int (v div 256) :: byte)"
      by (simp only: uint_word_of_int_byte)
  qed
  moreover have "(word_of_int (v mod 65536) :: byte) = word_of_int v"
    by (rule word_uint_eqI) (simp add: uint_word_of_int mod_mod_cancel)
  ultimately show ?thesis by (simp add: put32_def put16_def)
qed

lemma be32_put32:
  assumes v: "0 \<le> v" "v < 4294967296" and bs: "put32 v = [a, b, c, d]"
  shows "be32 a b c d = v"
proof -
  from bs v have hi: "put16 (v div 65536) = [a, b]" and lo: "put16 (v mod 65536) = [c, d]"
    by (simp_all add: put32_put16) (simp_all add: put16_def)
  have "be16 a b = v div 65536"
    using v by (intro be16_put16 [OF _ _ hi]) auto
  moreover have "be16 c d = v mod 65536"
    by (intro be16_put16 [OF _ _ lo]) auto
  ultimately show ?thesis by (simp add: be32_be16)
qed

end
