(* ===== verification/Http.thy ===== *)
theory Http
  imports Json Bytes
begin

section \<open>HTTP: requests, answers and the server as a parameter\<close>

text \<open>
  The package talks to the Bosch cloud and to cameras through an \<open>aiohttp\<close> session. The session
  and whatever answers it are parameters: a \<open>server\<close> maps the requests sent so far and the next
  one to an exception or a response, so every theorem is about any peer and any network fault.
  What reading a response gives (text, JSON, bytes, chunks) is part of it, since each read can
  fail on its own. The requests sent are recorded in \<open>hist\<close>, oldest first; components that keep
  caches extend the record.
\<close>

datatype body = NoBody | EmptyBody | JsonBody json | RawBody bytes

record request =
  rq_method :: string
  rq_url :: string
  rq_params :: "(string \<times> string) list"
  rq_headers :: "(string \<times> string) list"
  rq_body :: body
  rq_redirects :: bool

text \<open>
  \<open>rs_text\<close> is \<open>await resp.text()\<close>, \<open>rs_text_lax\<close> is \<open>await resp.text(errors="replace")\<close>,
  \<open>rs_json\<close> is \<open>await resp.json(content_type=None)\<close> and \<open>rs_json_typed\<close> \<open>await resp.json()\<close>,
  \<open>rs_read\<close> is \<open>await resp.read()\<close>, and \<open>rs_chunks\<close> the chunks of \<open>iter_chunked\<close> with the exception
  that ends them, if one does.
\<close>

record response =
  rs_status :: int
  rs_headers :: "(string \<times> string) list"
  rs_text :: "exn + string"
  rs_text_lax :: "exn + string"
  rs_json :: "exn + json"
  rs_json_typed :: "exn + json"
  rs_read :: "exn + bytes"
  rs_chunks :: "bytes list \<times> exn option"

type_synonym server = "request list \<Rightarrow> request \<Rightarrow> exn + response"

record net =
  hist :: "request list"

definition send :: "server \<Rightarrow> request \<Rightarrow> ('z net_scheme, response) io" where
  "send srv rq = (\<lambda>w. (srv (hist w) rq, w\<lparr>hist := hist w @ [rq]\<rparr>))"

definition mk_request :: "string \<Rightarrow> string \<Rightarrow> (string \<times> string) list \<Rightarrow> (string \<times> string) list \<Rightarrow> body \<Rightarrow> request" where
  "mk_request m u ps hs b =
     \<lparr>rq_method = m, rq_url = u, rq_params = ps, rq_headers = hs, rq_body = b, rq_redirects = True\<rparr>"

definition bearer :: "string \<Rightarrow> string" where
  "bearer token = ''Bearer '' @ token"

text \<open>\<open>200, 201, 204\<close>: what the cloud API answers to a successful write.\<close>

definition ok_status :: "int \<Rightarrow> bool" where
  "ok_status s \<longleftrightarrow> s = 200 \<or> s = 201 \<or> s = 204"

definition rejected :: "int \<Rightarrow> bool" where
  "rejected s \<longleftrightarrow> s = 401 \<or> s = 403"

lemma rejected_not_ok [simp]: "rejected s \<Longrightarrow> \<not> ok_status s"
  by (auto simp: rejected_def ok_status_def)

lemma send_simps [simp]:
  "fst (send srv rq w) = srv (hist w) rq"
  "hist (snd (send srv rq w)) = hist w @ [rq]"
  by (simp_all add: send_def)

text \<open>A response whose every read succeeds with the given text and JSON value, for concrete runs.\<close>

definition plain_response :: "int \<Rightarrow> string \<Rightarrow> json \<Rightarrow> response" where
  "plain_response s t j =
     \<lparr>rs_status = s, rs_headers = [], rs_text = Inr t, rs_text_lax = Inr t, rs_json = Inr j,
      rs_json_typed = Inr j, rs_read = Inr (b_lit t), rs_chunks = ([b_lit t], None)\<rparr>"

end
