(* ===== verification/Base64.thy ===== *)
theory Base64
  imports Bytes
begin

section \<open>URL-safe base64\<close>

text \<open>
  \<open>base64.urlsafe_b64decode\<close> as the standard library performs it when not strict: characters
  outside the alphabet are skipped, a complete padding ends the data, and an unfinished quad is
  an error. The encoder is the RFC 4648 one without padding, which is how a JWT carries its parts;
  the lemma at the end says that decoding with the padding restored gives the bytes back.
\<close>

definition b64_val :: "char \<Rightarrow> nat option" where
  "b64_val c =
     (if is_upper c then Some (code c - 65)
      else if is_lower c then Some (code c - 71)
      else if is_digit c then Some (code c + 4)
      else if c = CHR ''+'' \<or> c = CHR ''-'' then Some 62
      else if c = CHR ''/'' \<or> c = CHR ''_'' then Some 63
      else None)"

text \<open>The state of the decoder: position in the quad, padding seen, bits left over.\<close>

fun b64_loop :: "string \<Rightarrow> nat \<Rightarrow> nat \<Rightarrow> nat \<Rightarrow> exn + bytes" where
  "b64_loop [] quad pads left = (if quad = 0 then Inr [] else Inl (ValueError ''Incorrect padding''))"
| "b64_loop (c # cs) quad pads left =
     (if c = CHR ''='' then
        (if 2 \<le> quad \<and> 4 \<le> quad + Suc pads then Inr []
         else b64_loop cs quad (if 2 \<le> quad then Suc pads else pads) left)
      else case b64_val c of
        None \<Rightarrow> b64_loop cs quad pads left
      | Some v \<Rightarrow>
          if quad = 0 then b64_loop cs 1 0 v
          else
            let (b, rest) =
              (if quad = 1 then (left * 4 + v div 16, v mod 16)
               else if quad = 2 then (left * 16 + v div 4, v mod 4)
               else (left * 64 + v, 0))
            in (case b64_loop cs (if quad = 3 then 0 else Suc quad) 0 rest of
                  Inl e \<Rightarrow> Inl e
                | Inr bs \<Rightarrow> Inr (word_of_nat b # bs)))"

definition urlsafe_b64decode :: "string \<Rightarrow> exn + bytes" where
  "urlsafe_b64decode s =
     (if list_all (\<lambda>c. code c < 128) s then b64_loop s 0 0 0 else Inl (ValueError ''not ASCII''))"

text \<open>\<open>"=" * (-len(payload) % 4)\<close>\<close>

definition pad4 :: "string \<Rightarrow> string" where
  "pad4 s = replicate (nat ((- int (length s)) mod 4)) (CHR ''='')"

subsection \<open>The encoder and the round trip\<close>

definition b64_char :: "nat \<Rightarrow> char" where
  "b64_char v =
     (if v < 26 then char_of (65 + v) else if v < 52 then char_of (71 + v)
      else if v < 62 then char_of (v - 4) else if v = 62 then CHR ''-'' else CHR ''_'')"

fun b64_encode :: "bytes \<Rightarrow> string" where
  "b64_encode [] = []"
| "b64_encode [a] = [b64_char (unat a div 4), b64_char (unat a mod 4 * 16)]"
| "b64_encode [a, b] =
     [b64_char (unat a div 4), b64_char (unat a mod 4 * 16 + unat b div 16), b64_char (unat b mod 16 * 4)]"
| "b64_encode (a # b # c # bs) =
     b64_char (unat a div 4) # b64_char (unat a mod 4 * 16 + unat b div 16) #
     b64_char (unat b mod 16 * 4 + unat c div 64) # b64_char (unat c mod 64) # b64_encode bs"

lemma b64_val_char:
  assumes "v < 64"
  shows "b64_val (b64_char v) = Some v" "b64_char v \<noteq> CHR ''=''" "b64_char v \<noteq> CHR ''.''" "code (b64_char v) < 128"
proof -
  consider "v < 26" | "26 \<le> v" "v < 52" | "52 \<le> v" "v < 62" | "v = 62" | "v = 63"
    using assms by linarith
  then have "b64_val (b64_char v) = Some v \<and> code (b64_char v) \<noteq> 61 \<and> code (b64_char v) \<noteq> 46 \<and> code (b64_char v) < 128"
  proof cases
    case 3
    then have "48 \<le> v - 4" "v - 4 \<le> 57" by linarith+
    then show ?thesis using 3 by (simp add: b64_char_def b64_val_def is_upper_def is_lower_def is_digit_def)
  qed (simp_all add: b64_char_def b64_val_def is_upper_def is_lower_def is_digit_def, simp_all add: code_def)
  then show "b64_val (b64_char v) = Some v" "b64_char v \<noteq> CHR ''=''" "b64_char v \<noteq> CHR ''.''" "code (b64_char v) < 128"
    by (auto simp: code_def)
qed

lemma mult_add_div_mod: "k < n \<Longrightarrow> (m * n + k) div n = m" "k < n \<Longrightarrow> (m * n + k) mod n = k" for k n m :: nat
  by simp_all

lemma byte_fields:
  "unat (a :: byte) div 4 < 64" "unat (a :: byte) mod 4 * 16 + unat (b :: byte) div 16 < 64"
  "unat (b :: byte) mod 16 * 4 + unat (c :: byte) div 64 < 64" "unat (c :: byte) mod 64 < 64"
  "unat (a :: byte) mod 4 * 16 < 64" "unat (b :: byte) mod 16 * 4 < 64"
proof -
  have "unat a div 4 < 64" "unat b div 16 < 16" "unat c div 64 < 4"
    by (simp_all add: div_less_iff_less_mult)
  moreover have "unat a mod 4 < 4" "unat b mod 16 < 16" "unat c mod 64 < 64" by simp_all
  ultimately show "unat a div 4 < 64" "unat a mod 4 * 16 + unat b div 16 < 64"
      "unat b mod 16 * 4 + unat c div 64 < 64" "unat c mod 64 < 64"
      "unat a mod 4 * 16 < 64" "unat b mod 16 * 4 < 64"
    by linarith+
qed

lemma byte_joins:
  "unat (a :: byte) div 4 * 4 + (unat a mod 4 * 16 + unat (b :: byte) div 16) div 16 = unat a"
  "(unat a mod 4 * 16 + unat b div 16) mod 16 * 16 + (unat b mod 16 * 4 + unat (c :: byte) div 64) div 4 = unat b"
  "(unat b mod 16 * 4 + unat c div 64) mod 4 * 64 + unat c mod 64 = unat c"
  "(unat a mod 4 * 16 + unat b div 16) mod 16 * 16 + unat b mod 16 * 4 div 4 = unat b"
proof -
  have "unat b div 16 < 16" "unat c div 64 < 4"
    by (simp_all add: div_less_iff_less_mult)
  then show "unat a div 4 * 4 + (unat a mod 4 * 16 + unat b div 16) div 16 = unat a"
    "(unat a mod 4 * 16 + unat b div 16) mod 16 * 16 + (unat b mod 16 * 4 + unat c div 64) div 4 = unat b"
    "(unat b mod 16 * 4 + unat c div 64) mod 4 * 64 + unat c mod 64 = unat c"
    "(unat a mod 4 * 16 + unat b div 16) mod 16 * 16 + unat b mod 16 * 4 div 4 = unat b"
    by (simp_all only: mult_add_div_mod) simp_all
qed

text \<open>One step of the decoder per alphabet character, by its position in the quad.\<close>

lemma b64_step:
  assumes "v < 64"
  shows "b64_loop (b64_char v # cs) 0 p l = b64_loop cs (Suc 0) 0 v"
    "b64_loop (b64_char v # cs) (Suc 0) p l = map_sum id (Cons (word_of_nat (l * 4 + v div 16))) (b64_loop cs 2 0 (v mod 16))"
    "b64_loop (b64_char v # cs) 2 p l = map_sum id (Cons (word_of_nat (l * 16 + v div 4))) (b64_loop cs 3 0 (v mod 4))"
    "b64_loop (b64_char v # cs) 3 p l = map_sum id (Cons (word_of_nat (l * 64 + v))) (b64_loop cs 0 0 0)"
  using b64_val_char [OF assms] by (simp_all add: numeral_2_eq_2 numeral_3_eq_3 map_sum_def id_def split: sum.splits)

lemma b64_pad:
  "b64_loop (CHR ''='' # cs) q p l =
     (if 2 \<le> q \<and> 4 \<le> q + Suc p then Inr [] else b64_loop cs q (if 2 \<le> q then Suc p else p) l)"
  by simp

lemma replicate_2: "replicate 2 x = [x, x]"
  by (simp add: numeral_2_eq_2)

lemma word_of_nat_byte: "n = unat b \<Longrightarrow> (word_of_nat n :: byte) = b"
  by simp

lemma b64_loop_encode:
  "b64_loop (b64_encode bs @ replicate (nat ((- int (length (b64_encode bs))) mod 4)) (CHR ''='')) 0 0 0 = Inr bs"
proof (induction bs rule: b64_encode.induct)
  case 1
  then show ?case by simp
next
  case (2 a)
  have "unat a mod 4 * 16 div 16 = unat a mod 4" by simp
  then have "unat a div 4 * 4 + unat a mod 4 * 16 div 16 = unat a" by simp
  then have "(word_of_nat (unat a div 4 * 4 + unat a mod 4 * 16 div 16) :: byte) = a" by (rule word_of_nat_byte)
  then show ?case by (simp add: b64_step b64_pad byte_fields replicate_2 del: of_nat_add of_nat_mult of_nat_div b64_loop.simps(2))
next
  case (3 a b)
  note word_of_nat_byte [OF byte_joins(1) [of a b]] word_of_nat_byte [OF byte_joins(4) [of a b]]
  then show ?case by (simp add: b64_step b64_pad byte_fields del: of_nat_add of_nat_mult b64_loop.simps(2))
next
  case (4 a b c bs)
  have "(- int (length (b64_encode (a # b # c # bs)))) mod 4 = (- int (length (b64_encode bs))) mod 4"
    by simp presburger
  moreover note word_of_nat_byte [OF byte_joins(1) [of a b]] word_of_nat_byte [OF byte_joins(2) [of a b c]]
    word_of_nat_byte [OF byte_joins(3) [of b c]]
  ultimately show ?case using 4
    by (simp add: b64_step b64_pad byte_fields del: of_nat_add of_nat_mult b64_loop.simps(2))
qed

lemma b64_encode_chars: "c \<in> set (b64_encode bs) \<Longrightarrow> code c < 128 \<and> c \<noteq> CHR ''.''"
  by (induction bs rule: b64_encode.induct) (auto simp: b64_val_char byte_fields)

lemma urlsafe_b64decode_encode: "urlsafe_b64decode (b64_encode bs @ pad4 (b64_encode bs)) = Inr bs"
proof -
  have "list_all (\<lambda>c. code c < 128) (b64_encode bs @ pad4 (b64_encode bs))"
    by (auto simp: list_all_iff pad4_def b64_encode_chars code_def [of "CHR ''=''"])
  then show ?thesis
    using b64_loop_encode [of bs] by (simp add: urlsafe_b64decode_def pad4_def)
qed

end
