(* ===== verification/Urls.thy ===== *)
theory Urls
  imports Prelude
begin

section \<open>URLs: \<open>urlparse\<close>, \<open>quote\<close> and \<open>urlencode\<close> of the standard library\<close>

text \<open>
  What the package uses of \<open>urllib.parse\<close>: splitting a URL into scheme, network location, path
  and query, the host name of a network location, and percent-encoding. The validity check of a
  network location with brackets or non-ASCII characters (the \<open>ipaddress\<close> module and Unicode
  normalisation) is the parameter \<open>netloc_ok\<close>; where it fails, \<open>urlparse\<close> raises.
\<close>

record url_parts =
  up_scheme :: string
  up_netloc :: string
  up_path :: string
  up_query :: string

definition is_c0_or_space :: "char \<Rightarrow> bool" where
  "is_c0_or_space c \<longleftrightarrow> code c \<le> 32"

definition is_scheme_char :: "char \<Rightarrow> bool" where
  "is_scheme_char c \<longleftrightarrow> is_alpha c \<or> is_digit c \<or> c = CHR ''+'' \<or> c = CHR ''-'' \<or> c = CHR ''.''"

definition clean_url :: "string \<Rightarrow> string" where
  "clean_url u = filter (\<lambda>c. code c \<noteq> 9 \<and> code c \<noteq> 10 \<and> code c \<noteq> 13) (lstrip is_c0_or_space u)"

text \<open>The scheme and what follows its colon; no scheme when the text before the colon is not one.\<close>

definition split_scheme :: "string \<Rightarrow> string \<times> string" where
  "split_scheme u =
     (let (a, sep, b) = partition_on (CHR '':'') u in
      if sep \<noteq> [] \<and> a \<noteq> [] \<and> is_alpha (hd a) \<and> list_all is_scheme_char a then (lower a, b) else ([], u))"

definition is_netloc_end :: "char \<Rightarrow> bool" where
  "is_netloc_end c \<longleftrightarrow> c = CHR ''/'' \<or> c = CHR ''?'' \<or> c = CHR ''#''"

definition split_netloc :: "string \<Rightarrow> string \<times> string" where
  "split_netloc u =
     (if starts_with ''//'' u
      then (takeWhile (\<lambda>c. \<not> is_netloc_end c) (drop 2 u), dropWhile (\<lambda>c. \<not> is_netloc_end c) (drop 2 u))
      else ([], u))"

definition netloc_checked :: "string \<Rightarrow> bool" where
  "netloc_checked n \<longleftrightarrow> CHR ''['' \<in> set n \<or> CHR '']'' \<in> set n \<or> (\<exists>c \<in> set n. 128 \<le> code c)"

text \<open>The parameters of the last path segment, which \<open>urlparse\<close> takes off the path.\<close>

definition drop_params :: "string \<Rightarrow> string" where
  "drop_params p =
     (let seg = rev (takeWhile (\<lambda>c. c \<noteq> CHR ''/'') (rev p)) in
      take (length p - length seg) p @ takeWhile (\<lambda>c. c \<noteq> CHR '';'') seg)"

definition uses_params :: "string list" where
  "uses_params = [[], ''ftp'', ''hdl'', ''prospero'', ''http'', ''imap'', ''https'', ''shttp'', ''rtsp'',
     ''rtsps'', ''rtspu'', ''sip'', ''sips'', ''mms'', ''sftp'', ''tel'']"

definition urlparse :: "(string \<Rightarrow> bool) \<Rightarrow> string \<Rightarrow> exn + url_parts" where
  "urlparse netloc_ok url =
     (let (scheme, u) = split_scheme (clean_url url); (netloc, rest) = split_netloc u;
          (u2, _, _) = partition_on (CHR ''#'') rest; (path, _, query) = partition_on (CHR ''?'') u2 in
      if netloc_checked netloc \<and> \<not> netloc_ok netloc then Inl (ValueError ''Invalid netloc'')
      else Inr \<lparr>up_scheme = scheme, up_netloc = netloc,
                up_path = (if List.member uses_params scheme then drop_params path else path), up_query = query\<rparr>)"

text \<open>\<open>parsed.hostname\<close>: after the last \<open>@\<close>, inside brackets or before the port, lower-cased.\<close>

definition after_last :: "'a \<Rightarrow> 'a list \<Rightarrow> 'a list" where
  "after_last c s = rev (takeWhile (\<lambda>x. x \<noteq> c) (rev s))"

definition host_of_netloc :: "string \<Rightarrow> string" where
  "host_of_netloc n =
     (let info = after_last (CHR ''@'') n; (_, br, inside) = partition_on (CHR ''['') info in
      if br \<noteq> [] then fst (partition_on (CHR '']'') inside) else fst (partition_on (CHR '':'') info))"

definition hostname :: "string \<Rightarrow> string option" where
  "hostname n =
     (let h = host_of_netloc n; (name, pct, zone) = partition_on (CHR ''%'') h in
      if h = [] then None else Some (lower name @ pct @ zone))"

subsection \<open>Percent-encoding\<close>

definition utf8_char :: "char \<Rightarrow> nat list" where
  "utf8_char c = (if code c < 128 then [code c] else [192 + code c div 64, 128 + code c mod 64])"

definition is_unreserved :: "char \<Rightarrow> bool" where
  "is_unreserved c \<longleftrightarrow> is_alpha c \<or> is_digit c \<or> c = CHR ''_'' \<or> c = CHR ''.'' \<or> c = CHR ''-'' \<or> c = CHR ''~''"

definition hex_upper :: "nat \<Rightarrow> char" where
  "hex_upper n = (if n < 10 then char_of (48 + n) else char_of (55 + n))"

definition pct_byte :: "nat \<Rightarrow> string" where
  "pct_byte b = [CHR ''%'', hex_upper (b div 16), hex_upper (b mod 16)]"

text \<open>\<open>quote(s, safe="")\<close>, \<open>quote_plus(s)\<close>, \<open>urlencode(params)\<close>.\<close>

definition quote :: "string \<Rightarrow> string" where
  "quote s = concat (map (\<lambda>c. if is_unreserved c then [c] else concat (map pct_byte (utf8_char c))) s)"

definition quote_plus :: "string \<Rightarrow> string" where
  "quote_plus s = concat (map (\<lambda>c. if c = CHR '' '' then ''+'' else quote [c]) s)"

definition urlencode :: "(string \<times> string) list \<Rightarrow> string" where
  "urlencode ps = join_with ''&'' (map (\<lambda>(k, v). quote_plus k @ ''='' @ quote_plus v) ps)"

subsection \<open>Facts about splitting and encoding\<close>

lemma partition_on_fst: "fst (partition_on c s) = takeWhile (\<lambda>x. x \<noteq> c) s"
  by (simp add: partition_on_def Let_def) (metis takeWhile_eq_take take_all order_refl)

lemma after_last_append: "c \<notin> set b \<Longrightarrow> after_last c (a @ c # b) = b"
  by (simp add: after_last_def)

lemma after_last_none: "c \<notin> set b \<Longrightarrow> after_last c b = b"
  by (simp add: after_last_def)

lemma after_last_prefix: "after_last c (a @ [c] @ b) = after_last c b"
proof (cases "c \<in> set b")
  case True
  then have "takeWhile (\<lambda>x. x \<noteq> c) (rev b @ c # rev a) = takeWhile (\<lambda>x. x \<noteq> c) (rev b)"
    by (intro takeWhile_append1 [of c]) auto
  then show ?thesis by (simp add: after_last_def)
next
  case False
  then show ?thesis by (simp add: after_last_append after_last_none)
qed

lemma split_netloc_host:
  assumes "\<forall>c \<in> set n. \<not> is_netloc_end c" "r = [] \<or> is_netloc_end (hd r)"
  shows "split_netloc (''//'' @ n @ r) = (n, r)"
proof -
  have "takeWhile (\<lambda>c. \<not> is_netloc_end c) (n @ r) = n"
    using assms by (cases r) (auto simp: takeWhile_append2)
  moreover have "dropWhile (\<lambda>c. \<not> is_netloc_end c) (n @ r) = r"
    using assms by (cases r) (auto simp: dropWhile_append2)
  ultimately show ?thesis by (simp add: split_netloc_def starts_with_def)
qed

lemma code_hex_upper: "n < 16 \<Longrightarrow> code (hex_upper n) = (if n < 10 then 48 + n else 55 + n)"
  by (simp add: hex_upper_def code_def)

lemma hex_upper_unreserved: "n < 16 \<Longrightarrow> is_unreserved (hex_upper n)"
  by (auto simp: is_unreserved_def is_alpha_def is_upper_def is_digit_def code_hex_upper)

definition is_url_safe :: "char \<Rightarrow> bool" where
  "is_url_safe c \<longleftrightarrow> is_unreserved c \<or> c = CHR ''%''"

lemma utf8_char_bytes: "b \<in> set (utf8_char c) \<Longrightarrow> b < 256"
proof -
  have "code c < 256" by (simp add: code_def)
  then have "code c div 64 < 4" by (simp add: div_less_iff_less_mult)
  moreover assume "b \<in> set (utf8_char c)"
  ultimately show ?thesis by (auto simp: utf8_char_def split: if_splits)
qed

text \<open>Quoted text holds unreserved characters and percent signs only.\<close>

lemma quote_safe: "c \<in> set (quote s) \<Longrightarrow> is_url_safe c"
proof -
  have "is_url_safe x" if "b < 256" "x \<in> set (pct_byte b)" for b x
  proof -
    have "b div 16 < 16" using that(1) by (simp add: div_less_iff_less_mult)
    then show ?thesis using that(2) by (auto simp: pct_byte_def is_url_safe_def hex_upper_unreserved)
  qed
  then show "c \<in> set (quote s) \<Longrightarrow> is_url_safe c"
    by (auto simp: quote_def is_url_safe_def dest: utf8_char_bytes split: if_splits)
qed

subsection \<open>Parsing a URL that is written down with its parts\<close>

text \<open>A network location as it can stand in a URL without being rewritten or checked further.\<close>

definition plain_netloc :: "string \<Rightarrow> bool" where
  "plain_netloc n \<longleftrightarrow>
     list_all (\<lambda>c. \<not> is_netloc_end c \<and> 32 < code c \<and> code c < 128 \<and> c \<noteq> CHR ''['' \<and> c \<noteq> CHR '']'') n"

definition url_tail :: "string \<Rightarrow> bool" where
  "url_tail r \<longleftrightarrow> r = [] \<or> is_netloc_end (hd r)"

lemma plain_netlocD:
  assumes "plain_netloc n" "c \<in> set n"
  shows "\<not> is_netloc_end c" "32 < code c" "code c < 128" "c \<noteq> CHR ''[''" "c \<noteq> CHR '']''"
  using assms unfolding plain_netloc_def list_all_iff by blast+

lemma plain_netloc_append [simp]: "plain_netloc (a @ b) \<longleftrightarrow> plain_netloc a \<and> plain_netloc b"
  by (simp add: plain_netloc_def)

lemma clean_url_plain:
  assumes "list_all (\<lambda>c. 32 < code c) n" "n \<noteq> []" "url_tail r"
  shows "\<exists>r'. url_tail r' \<and> clean_url (n @ r) = n @ r'"
proof -
  let ?keep = "\<lambda>c. code c \<noteq> 9 \<and> code c \<noteq> 10 \<and> code c \<noteq> 13"
  have n: "filter ?keep n = n"
    using assms(1) by (intro filter_True) (auto simp: list_all_iff)
  have "?keep c" if "is_netloc_end c" for c
    using that unfolding is_netloc_end_def by (elim disjE) (simp_all add: code_def)
  then have r: "url_tail (filter ?keep r)"
    using assms(3) by (cases r) (simp_all add: url_tail_def)
  have "lstrip is_c0_or_space (n @ r) = n @ r"
    using assms(1,2) by (cases n) (simp_all add: lstrip_def is_c0_or_space_def)
  then have "clean_url (n @ r) = n @ filter ?keep r"
    unfolding clean_url_def by (simp only: filter_append n)
  with r show ?thesis by blast
qed

text \<open>The schemes the package writes.\<close>

definition plain_scheme :: "string \<Rightarrow> bool" where
  "plain_scheme sch \<longleftrightarrow> sch = ''https'' \<or> sch = ''http'' \<or> sch = ''rtsp''"

lemma plain_schemeD:
  assumes "plain_scheme sch"
  shows "list_all is_scheme_char sch" "list_all (\<lambda>c. 32 < code c) sch" "sch \<noteq> []" "is_alpha (hd sch)" "lower sch = sch"
  using assms unfolding plain_scheme_def
  by (elim disjE; simp add: is_scheme_char_def is_alpha_def is_upper_def is_lower_def code_def lower_def to_lower_def)+

lemma split_scheme_plain:
  assumes "plain_scheme sch"
  shows "split_scheme (sch @ CHR '':'' # u) = (sch, u)"
proof -
  have "CHR '':'' \<notin> set sch" using assms unfolding plain_scheme_def by (elim disjE) simp_all
  then show ?thesis using plain_schemeD [OF assms] by (simp add: split_scheme_def partition_on_append)
qed

lemma urlparse_plain:
  assumes "plain_scheme sch" "plain_netloc n" "url_tail r"
  shows "\<exists>p. urlparse ok (sch @ ''://'' @ n @ r) = Inr p \<and> up_scheme p = sch \<and> up_netloc p = n"
proof -
  have "list_all (\<lambda>c. 32 < code c) (sch @ ''://'' @ n)"
    using plain_schemeD(2) [OF assms(1)] assms(2) by (auto simp: code_def plain_netloc_def list_all_iff)
  from clean_url_plain [OF this _ assms(3)] obtain r' where
    r': "url_tail r'" "clean_url (sch @ ''://'' @ n @ r) = sch @ ''://'' @ n @ r'" by auto
  have "split_scheme (sch @ ''://'' @ n @ r') = (sch, ''//'' @ n @ r')"
    using split_scheme_plain [OF assms(1), of "''//'' @ n @ r'"] by simp
  moreover have "split_netloc (''//'' @ n @ r') = (n, r')"
    using plain_netlocD(1) [OF assms(2)] r'(1) unfolding url_tail_def by (intro split_netloc_host) blast+
  moreover have "\<not> netloc_checked n"
    using plain_netlocD(3,4,5) [OF assms(2)] unfolding netloc_checked_def by (force simp: not_le)
  moreover obtain a b c where "partition_on (CHR ''#'') r' = (a, b, c)"
    by (cases "partition_on (CHR ''#'') r'")
  moreover obtain d e f where "partition_on (CHR ''?'') a = (d, e, f)"
    by (cases "partition_on (CHR ''?'') a")
  ultimately show ?thesis
    unfolding urlparse_def r'(2) by (simp only: Let_def prod.case) simp
qed

lemma hostname_user_info: "hostname (u @ ''@'' @ h) = hostname h"
proof -
  have "after_last (CHR ''@'') (u @ [CHR ''@''] @ h) = after_last (CHR ''@'') h"
    by (rule after_last_prefix)
  then show ?thesis unfolding hostname_def host_of_netloc_def by simp
qed

lemma hostname_plain:
  assumes "h \<noteq> []" "\<forall>c \<in> set h. c \<noteq> CHR ''@'' \<and> c \<noteq> CHR ''['' \<and> c \<noteq> CHR '':'' \<and> c \<noteq> CHR ''%''"
  shows "hostname h = Some (lower h)"
proof -
  have "CHR ''@'' \<notin> set h" "CHR ''['' \<notin> set h" "CHR '':'' \<notin> set h" "CHR ''%'' \<notin> set h"
    using assms(2) by blast+
  then show ?thesis
    using assms(1) by (simp add: hostname_def host_of_netloc_def after_last_none partition_on_none)
qed

lemma hostname_port:
  assumes "h \<noteq> []" "list_all (\<lambda>c. c \<noteq> CHR ''@'' \<and> c \<noteq> CHR ''['' \<and> c \<noteq> CHR '':'' \<and> c \<noteq> CHR ''%'') h"
    "list_all is_digit port"
  shows "hostname (u @ ''@'' @ h @ '':'' @ port) = Some (lower h)" "hostname (h @ '':'' @ port) = Some (lower h)"
proof -
  have "CHR ''@'' \<notin> set port" "CHR ''['' \<notin> set port"
    using assms(3) by (auto simp: list_all_iff is_digit_def code_def)
  moreover have "CHR ''@'' \<notin> set h" "CHR ''['' \<notin> set h" "CHR '':'' \<notin> set h" "CHR ''%'' \<notin> set h"
    using assms(2) unfolding list_all_iff by blast+
  ultimately have "CHR ''@'' \<notin> set (h @ '':'' @ port)" "CHR ''['' \<notin> set (h @ '':'' @ port)"
    "partition_on (CHR '':'') (h @ '':'' @ port) = (h, '':'', port)" "partition_on (CHR ''%'') h = (h, [], [])"
    by (simp_all add: partition_on_append partition_on_none)
  then have "hostname (h @ '':'' @ port) = Some (lower h)"
    using assms(1) by (simp add: hostname_def host_of_netloc_def after_last_none partition_on_none Let_def)
  then show "hostname (h @ '':'' @ port) = Some (lower h)" "hostname (u @ ''@'' @ h @ '':'' @ port) = Some (lower h)"
    unfolding hostname_user_info by this+
qed

text \<open>What can stand in a network location: quoted text, host names, decimal numbers.\<close>

lemma plain_netloc_quote: "plain_netloc (quote s)"
proof -
  have "\<not> is_netloc_end c \<and> 32 < code c \<and> code c < 128 \<and> c \<noteq> CHR ''['' \<and> c \<noteq> CHR '']''" if "is_url_safe c" for c
    using that unfolding is_url_safe_def is_unreserved_def is_alpha_def is_upper_def is_lower_def is_digit_def is_netloc_end_def
    by (elim disjE conjE) (auto simp: code_def)
  then show ?thesis using quote_safe unfolding plain_netloc_def list_all_iff by blast
qed

definition is_host_char :: "char \<Rightarrow> bool" where
  "is_host_char c \<longleftrightarrow> is_alpha c \<or> is_digit c \<or> c = CHR ''-'' \<or> c = CHR ''.''"

lemma host_char_plain:
  assumes "is_host_char c"
  shows "\<not> is_netloc_end c" "32 < code c" "code c < 128" "c \<notin> {CHR ''['', CHR '']'', CHR ''@'', CHR '':'', CHR ''%'', CHR ''=''}"
  using assms unfolding is_host_char_def is_alpha_def is_upper_def is_lower_def is_digit_def is_netloc_end_def
  by (auto simp: code_def)

lemma plain_netloc_host: "list_all is_host_char h \<Longrightarrow> plain_netloc h"
  unfolding plain_netloc_def list_all_iff using host_char_plain by blast

lemma nat_str_host: "list_all is_host_char (nat_str n)"
  using nat_str_digits [of n] by (auto simp: list_all_iff is_host_char_def)

end
