(* ===== verification/MediaTransfer.thy ===== *)
theory MediaTransfer
  imports Urls Bytes
begin

section \<open>Media transfer: URL allowlist, file names and FTP directories\<close>

text \<open>
  \<open>media_transfer.py\<close>: the allowlist that keeps bearer tokens on Bosch hosts, the sanitizer for
  cloud-provided names and the FTP connection, existence check and directory walk, with the FTP
  server as a parameter. The downloads are in the theory of that name. The lemmas say which hosts
  the allowlist accepts whatever the rest of the URL is, what a sanitized name can contain, and
  which directories are requested in which order.
\<close>

subsection \<open>The URL allowlist\<close>

definition DEFAULT_SAFE_DOMAINS :: "string list" where
  "DEFAULT_SAFE_DOMAINS = [''.boschsecurity.com'', ''.bosch.com'']"

definition is_safe_bosch_url :: "(string \<Rightarrow> bool) \<Rightarrow> string list \<Rightarrow> string \<Rightarrow> bool" where
  "is_safe_bosch_url netloc_ok safe_domains url =
     (case urlparse netloc_ok url of
        Inl _ \<Rightarrow> False
      | Inr p \<Rightarrow>
          up_scheme p = ''https'' \<and>
          (case hostname (up_netloc p) of
             None \<Rightarrow> False
           | Some h \<Rightarrow> list_ex (\<lambda>d. ends_with d h) safe_domains))"

text \<open>The answer depends on the host name alone: neither path, query, fragment nor user info can change it.\<close>

lemma safe_url_iff:
  assumes "plain_netloc n" "url_tail r"
  shows "is_safe_bosch_url ok ds (''https://'' @ n @ r) \<longleftrightarrow>
     (\<exists>h d. hostname n = Some h \<and> d \<in> set ds \<and> ends_with d h)"
proof -
  obtain p where p: "urlparse ok (''https://'' @ n @ r) = Inr p" "up_scheme p = ''https''" "up_netloc p = n"
    using urlparse_plain [OF _ assms, of "''https''"] by (auto simp: plain_scheme_def)
  show ?thesis
    unfolding is_safe_bosch_url_def p(1) sum.case p(2,3)
    by (auto simp: list_ex_iff split: option.splits)
qed

lemma safe_url_scheme:
  "is_safe_bosch_url ok ds url \<Longrightarrow> fst (split_scheme (clean_url url)) = ''https''"
  by (auto simp: is_safe_bosch_url_def urlparse_def Let_def split: sum.splits prod.splits if_splits)

subsection \<open>File names\<close>

text \<open>Python's \<open>\w\<close> for 8-bit characters.\<close>

definition is_word :: "char \<Rightarrow> bool" where
  "is_word c \<longleftrightarrow>
     (let n = code c in
      is_alpha c \<or> is_digit c \<or> n = 95 \<or> n = 170 \<or> n = 178 \<or> n = 179 \<or> n = 181 \<or> n = 185 \<or> n = 186 \<or>
      188 \<le> n \<and> n \<le> 190 \<or> 192 \<le> n \<and> n \<noteq> 215 \<and> n \<noteq> 247)"

definition is_name_char :: "char \<Rightarrow> bool" where
  "is_name_char c \<longleftrightarrow> is_word c \<or> c = CHR ''-'' \<or> c = CHR ''.'' \<or> c = CHR '' ''"

definition sanitize_filename :: "string \<Rightarrow> string" where
  "sanitize_filename name =
     take 64 (map (\<lambda>c. if is_name_char c then c else CHR ''_'') (replace_all ''..'' ''_'' name))"

lemma name_char_underscore [simp]: "is_name_char (CHR ''_'')"
  by (simp add: is_name_char_def is_word_def code_def)

text \<open>No two neighbouring dots are left by the replacement, nor by what follows it.\<close>

fun no_dotdot :: "string \<Rightarrow> bool" where
  "no_dotdot (a # b # s) \<longleftrightarrow> \<not> (a = CHR ''.'' \<and> b = CHR ''.'') \<and> no_dotdot (b # s)"
| "no_dotdot _ \<longleftrightarrow> True"

lemma no_dotdot_Cons: "no_dotdot s \<Longrightarrow> a \<noteq> CHR ''.'' \<or> s = [] \<or> hd s \<noteq> CHR ''.'' \<Longrightarrow> no_dotdot (a # s)"
  by (cases s) auto

lemma replace_dots_hd:
  "replace_all ''..'' ''_'' s = CHR ''.'' # t \<Longrightarrow> \<exists>s'. s = CHR ''.'' # s' \<and> (s' = [] \<or> hd s' \<noteq> CHR ''.'')"
  by (cases s; cases "tl s") (auto simp: starts_with_def split: if_splits)

lemma no_dotdot_replace: "no_dotdot (replace_all ''..'' ''_'' s)"
proof (induction s rule: length_induct)
  case (1 s)
  show ?case
  proof (cases s)
    case Nil
    then show ?thesis by simp
  next
    case (Cons x xs)
    let ?r = "replace_all ''..'' ''_''"
    show ?thesis
    proof (cases "starts_with ''..'' (x # xs)")
      case True
      then have "?r s = CHR ''_'' # ?r (tl xs)"
        using Cons by (simp add: starts_with_def drop_Suc)
      moreover have "no_dotdot (?r (tl xs))" using 1 Cons by simp
      ultimately show ?thesis by (simp add: no_dotdot_Cons)
    next
      case False
      have "no_dotdot (?r xs)" using 1 Cons by simp
      moreover have "x \<noteq> CHR ''.'' \<or> ?r xs = [] \<or> hd (?r xs) \<noteq> CHR ''.''"
        using False replace_dots_hd [of xs]
        by (cases "?r xs") (auto simp: starts_with_def)
      ultimately show ?thesis using Cons False by (simp add: no_dotdot_Cons)
    qed
  qed
qed

lemma no_dotdot_map:
  "no_dotdot s \<Longrightarrow> (\<And>c. f c = CHR ''.'' \<Longrightarrow> c = CHR ''.'') \<Longrightarrow> no_dotdot (map f s)"
  by (induction s rule: no_dotdot.induct) auto

lemma no_dotdot_take: "no_dotdot s \<Longrightarrow> no_dotdot (take n s)"
proof (induction s arbitrary: n rule: no_dotdot.induct)
  case (1 a b s)
  have "no_dotdot (take (n - 1) (b # s))" using 1 by simp
  moreover have "n \<le> 1 \<or> hd (take (n - 1) (b # s)) = b" by (cases "n - 1") auto
  ultimately show ?case using 1 by (cases n) (auto intro!: no_dotdot_Cons)
qed (simp_all add: take_Cons split: nat.split)

lemma no_dotdot_contains: "no_dotdot s \<longleftrightarrow> \<not> contains ''..'' s"
  by (induction s rule: no_dotdot.induct) (auto simp: starts_with_def)

lemma replace_all_absent: "no_dotdot s \<Longrightarrow> replace_all ''..'' ''_'' s = s"
  by (induction s rule: no_dotdot.induct) (auto simp: starts_with_def)

subsection \<open>FTP directories\<close>

datatype ftp_reply = FtpDone | FtpPermError | FtpRaise exn

text \<open>The connection: each call is made only when those before it have not raised.\<close>

datatype ftp_call = FtpOpen string int | FtpLogin string string | FtpPasv bool

fun ftp_calls :: "(ftp_call list \<Rightarrow> ftp_call \<Rightarrow> exn option) \<Rightarrow> ftp_call list \<Rightarrow> (ftp_call list, unit) io" where
  "ftp_calls ftp [] made = (Inr (), made)"
| "ftp_calls ftp (c # cs) made =
     (case ftp made c of Some e \<Rightarrow> (Inl e, made @ [c]) | None \<Rightarrow> ftp_calls ftp cs (made @ [c]))"

definition ftp_connect ::
    "(ftp_call list \<Rightarrow> ftp_call \<Rightarrow> exn option) \<Rightarrow> string \<Rightarrow> string \<Rightarrow> string \<Rightarrow> int \<Rightarrow> (ftp_call list, unit) io" where
  "ftp_connect ftp server username password timeout =
     ftp_calls ftp [FtpOpen server timeout, FtpLogin username password, FtpPasv True]"

text \<open>The FTP server answers each \<open>MKD\<close> knowing those before it; a permanent error is ignored.\<close>

fun ftp_mkd_all :: "(string list \<Rightarrow> string \<Rightarrow> ftp_reply) \<Rightarrow> string list \<Rightarrow> string \<Rightarrow> (string list, unit) io" where
  "ftp_mkd_all mkd [] current made = (Inr (), made)"
| "ftp_mkd_all mkd (part # parts) current made =
     (let here = current @ ''/'' @ part in
      case mkd made here of
        FtpRaise e \<Rightarrow> (Inl e, made @ [here])
      | _ \<Rightarrow> ftp_mkd_all mkd parts here (made @ [here]))"

definition ftp_makedirs :: "(string list \<Rightarrow> string \<Rightarrow> ftp_reply) \<Rightarrow> string \<Rightarrow> (string list, unit) io" where
  "ftp_makedirs mkd path = ftp_mkd_all mkd (filter (\<lambda>p. p \<noteq> []) (split_on (CHR ''/'') path)) []"

definition ftp_exists :: "ftp_reply \<Rightarrow> bool" where
  "ftp_exists size_reply = (case size_reply of FtpDone \<Rightarrow> True | FtpPermError \<Rightarrow> False | FtpRaise e \<Rightarrow> False)"

fun dir_prefixes :: "string \<Rightarrow> string list \<Rightarrow> string list" where
  "dir_prefixes current [] = []"
| "dir_prefixes current (p # ps) = (current @ ''/'' @ p) # dir_prefixes (current @ ''/'' @ p) ps"

lemma ftp_mkd_all_done:
  "(\<And>made d e. mkd made d \<noteq> FtpRaise e) \<Longrightarrow>
     ftp_mkd_all mkd parts current made = (Inr (), made @ dir_prefixes current parts)"
proof (induction parts arbitrary: current made)
  case (Cons p ps)
  then show ?case by (cases "mkd made (current @ ''/'' @ p)") (auto simp: Let_def)
qed simp

subsection \<open>Properties\<close>

text \<open>C22
  The allowlist is about the host: for an https URL written as user info, host and rest, the answer is
  whether the host ends in an allowed domain, so neither user info that looks like a Bosch host nor
  a Bosch domain in the path, the query or the fragment makes a foreign URL safe.\<close>

theorem allowlist_by_host:
  assumes "plain_netloc info" "plain_netloc h" "url_tail r" "h \<noteq> []"
    "list_all (\<lambda>c. c \<noteq> CHR ''@'' \<and> c \<noteq> CHR '':'' \<and> c \<noteq> CHR ''%'') h"
  shows "(is_safe_bosch_url ok ds (''https://'' @ h @ r) \<longleftrightarrow> list_ex (\<lambda>d. ends_with d (lower h)) ds) \<and>
    (is_safe_bosch_url ok ds (''https://'' @ info @ ''@'' @ h @ r) \<longleftrightarrow> list_ex (\<lambda>d. ends_with d (lower h)) ds)"
proof -
  have h: "hostname h = Some (lower h)"
    using assms(2,4,5) plain_netlocD(4) [OF assms(2)] by (intro hostname_plain) (auto simp: list_all_iff)
  have "plain_netloc (info @ ''@'' @ h)" using assms(1,2) by (simp add: plain_netloc_def is_netloc_end_def code_def)
  from safe_url_iff [OF this assms(3), of ok ds] safe_url_iff [OF assms(2,3), of ok ds] show ?thesis
    unfolding hostname_user_info h list_ex_iff append_assoc by blast
qed

theorem allowlist_by_host_witness:
  "\<not> is_safe_bosch_url (\<lambda>_. True) DEFAULT_SAFE_DOMAINS ''https://a.bosch.com@evil.com/x.bosch.com?y=.bosch.com'' \<and>
   is_safe_bosch_url (\<lambda>_. True) DEFAULT_SAFE_DOMAINS ''https://MEDIA.bosch.com/x''"
proof -
  have "plain_netloc ''a.bosch.com''" "plain_netloc ''evil.com''" "plain_netloc ''MEDIA.bosch.com''" by code_simp+
  moreover have "url_tail ''/x.bosch.com?y=.bosch.com''" "url_tail ''/x''" by code_simp+
  moreover have "list_all (\<lambda>c. c \<noteq> CHR ''@'' \<and> c \<noteq> CHR '':'' \<and> c \<noteq> CHR ''%'') ''evil.com''"
    "list_all (\<lambda>c. c \<noteq> CHR ''@'' \<and> c \<noteq> CHR '':'' \<and> c \<noteq> CHR ''%'') ''MEDIA.bosch.com''" by simp_all
  moreover have "\<not> list_ex (\<lambda>d. ends_with d (lower ''evil.com'')) DEFAULT_SAFE_DOMAINS"
    "list_ex (\<lambda>d. ends_with d (lower ''MEDIA.bosch.com'')) DEFAULT_SAFE_DOMAINS" by code_simp+
  ultimately show ?thesis
    using allowlist_by_host [of "''a.bosch.com''" "''evil.com''" "''/x.bosch.com?y=.bosch.com''" "\<lambda>_. True" DEFAULT_SAFE_DOMAINS]
      allowlist_by_host [of "''a.bosch.com''" "''MEDIA.bosch.com''" "''/x''" "\<lambda>_. True" DEFAULT_SAFE_DOMAINS] by simp
qed

text \<open>C39
  A sanitized name cannot leave its directory: it has at most 64 characters, none of them a slash, a
  backslash, a control character or any other outside the allowed set, and no two neighbouring dots,
  and sanitizing it again changes nothing.\<close>

theorem sanitized_name_safe:
  "let s = sanitize_filename name in
     length s \<le> 64 \<and> list_all is_name_char s \<and> set s \<inter> {CHR ''/'', CHR 0x5C, CHR 0x00, CHR 0x0A} = {} \<and>
     \<not> contains ''..'' s \<and> sanitize_filename s = s"
proof -
  let ?f = "\<lambda>c. if is_name_char c then c else CHR ''_''" and ?s = "sanitize_filename name"
  have "no_dotdot (map ?f (replace_all ''..'' ''_'' name))"
    by (rule no_dotdot_map [OF no_dotdot_replace]) (simp split: if_splits)
  then have d: "no_dotdot ?s" unfolding sanitize_filename_def by (rule no_dotdot_take)
  have n: "list_all is_name_char ?s"
    unfolding sanitize_filename_def list_all_iff by (auto dest!: in_set_takeD)
  have l: "length ?s \<le> 64" by (simp add: sanitize_filename_def)
  have "\<not> is_name_char c" if "c \<in> {CHR ''/'', CHR 0x5C, CHR 0x00, CHR 0x0A}" for c
    using that by (elim insertE emptyE; simp add: is_name_char_def is_word_def is_alpha_def is_upper_def is_lower_def is_digit_def code_def)
  with n have "set ?s \<inter> {CHR ''/'', CHR 0x5C, CHR 0x00, CHR 0x0A} = {}" unfolding list_all_iff by blast
  moreover have "sanitize_filename ?s = ?s"
  proof -
    have "replace_all ''..'' ''_'' ?s = ?s" using d by (rule replace_all_absent)
    moreover have "map ?f ?s = ?s" using n by (auto simp: list_all_iff intro: map_idI)
    ultimately show ?thesis using l by (simp add: sanitize_filename_def [of ?s])
  qed
  ultimately show ?thesis using d n l by (simp only: Let_def no_dotdot_contains) simp
qed

end
