(* ===== verification/Cameras.thy ===== *)
theory Cameras
  imports Http Base64 MediaTransfer
begin

section \<open>Cameras: error classification, camera list, account id and event images\<close>

text \<open>
  \<open>cameras.py\<close>: the GET with bearer token every reader of the package goes through
  (\<open>fetch_json\<close>), the camera list, the account identifier of an access token and the newest event
  image. The locale \<open>bearer_call\<close> is the contract of one authenticated request; the other modules
  interpret it for their own calls. \<open>loads\<close>, the JSON parser applied to decoded bytes, and
  \<open>netloc_ok\<close> are parameters.
\<close>

subsection \<open>Error bodies and rejected tokens\<close>

definition ERROR_BODY_LIMIT :: nat where
  "ERROR_BODY_LIMIT = 200"

definition read_error_body :: "response \<Rightarrow> string option" where
  "read_error_body resp = (case rs_text_lax resp of Inl _ \<Rightarrow> None | Inr t \<Rightarrow> Some (take ERROR_BODY_LIMIT t))"

definition raise_if_token_rejected :: "response \<Rightarrow> ('s, unit) io" where
  "raise_if_token_rejected resp =
     (if rejected (rs_status resp)
      then raise (BoschCameraAuthError
        (http_info (''Token rejected (HTTP '' @ int_str (rs_status resp) @ '')'') (rs_status resp) (read_error_body resp)))
      else ret ())"

subsection \<open>The contract of one request with a bearer token\<close>

text \<open>
  The call sends exactly one request; any fault of the request surfaces as an error, a network
  fault as \<open>BoschCameraConnectionError\<close>; an answer with 401 or 403 surfaces as
  \<open>BoschCameraAuthError\<close> with that status.
\<close>

locale bearer_call =
  fixes call :: "server \<Rightarrow> ('z net_scheme, 'a) io"
    and rq :: request
  assumes sends: "snd (call srv w) = w\<lparr>hist := hist w @ [rq]\<rparr>"
    and fault: "srv (hist w) rq = Inl e \<Longrightarrow> \<exists>e'. fst (call srv w) = Inl e'"
    and net_fault: "srv (hist w) rq = Inl e \<Longrightarrow> is_net_error e \<Longrightarrow>
      fst (call srv w) = Inl (BoschCameraConnectionError (plain_info (net_error_text e)))"
    and token_rejected: "srv (hist w) rq = Inr r \<Longrightarrow> rejected (rs_status r) \<Longrightarrow>
      \<exists>i. fst (call srv w) = Inl (BoschCameraAuthError i) \<and> ei_status i = Some (rs_status r)"
begin

lemma hist_after: "hist (snd (call srv w)) = hist w @ [rq]"
  by (simp add: sends)

text \<open>A value is returned only for an answer whose token was accepted.\<close>

lemma value_accepted:
  assumes "call srv w = (Inr x, w')"
  shows "\<exists>r. srv (hist w) rq = Inr r \<and> \<not> rejected (rs_status r)"
proof (cases "srv (hist w) rq")
  case (Inl e)
  from fault [of srv w e, OF Inl] assms show ?thesis by auto
next
  case (Inr r)
  with token_rejected [of srv w r, OF Inr] assms show ?thesis by auto
qed

lemma rejected_run:
  assumes "srv (hist w) rq = Inr r" "rejected (rs_status r)"
  shows "\<exists>i. call srv w = (Inl (BoschCameraAuthError i), w\<lparr>hist := hist w @ [rq]\<rparr>)"
  using token_rejected [of srv, OF assms] sends [of srv w] by (metis prod.collapse)

text \<open>Calling again sends the same request again: nothing is cached and nothing is retried inside.\<close>

lemma call_twice: "hist (snd (call srv (snd (call srv w)))) = hist w @ [rq, rq]"
  by (simp add: hist_after)

end

subsection \<open>fetch_json\<close>

definition get_request :: "string \<Rightarrow> string \<Rightarrow> request" where
  "get_request token url =
     mk_request ''GET'' url [] [(''Authorization'', bearer token), (''Accept'', ''application/json'')] NoBody"

definition fetch_json :: "server \<Rightarrow> string \<Rightarrow> string \<Rightarrow> string \<Rightarrow> ('z net_scheme, json) io" where
  "fetch_json srv token url what =
     catch_io
       (bind_io (send srv (get_request token url)) (\<lambda>resp.
        bind_io (raise_if_token_rejected resp) (\<lambda>_.
          if rs_status resp \<noteq> 200
          then raise (BoschCameraConnectionError
            (http_info (what @ '' returned HTTP '' @ int_str (rs_status resp)) (rs_status resp) (read_error_body resp)))
          else lift (rs_json resp))))
       (\<lambda>e. if is_net_error e then raise (BoschCameraConnectionError (plain_info (net_error_text e)))
            else if is_value_error e then raise (BoschCameraInvalidResponseError (plain_info ''Response is not JSON''))
            else raise e)"

definition reraise :: "exn \<Rightarrow> exn" where
  "reraise e =
     (if is_net_error e then BoschCameraConnectionError (plain_info (net_error_text e))
      else if is_value_error e then BoschCameraInvalidResponseError (plain_info ''Response is not JSON'')
      else e)"

text \<open>The outcome of \<open>fetch_json\<close> by the answer it gets.\<close>

lemma fetch_json_run:
  "fetch_json srv token url what w =
     ((case srv (hist w) (get_request token url) of
         Inl e \<Rightarrow> Inl (reraise e)
       | Inr r \<Rightarrow>
           if rejected (rs_status r)
           then Inl (BoschCameraAuthError
             (http_info (''Token rejected (HTTP '' @ int_str (rs_status r) @ '')'') (rs_status r) (read_error_body r)))
           else if rs_status r \<noteq> 200
           then Inl (BoschCameraConnectionError
             (http_info (what @ '' returned HTTP '' @ int_str (rs_status r)) (rs_status r) (read_error_body r)))
           else (case rs_json r of Inl e \<Rightarrow> Inl (reraise e) | Inr j \<Rightarrow> Inr j)),
      w\<lparr>hist := hist w @ [get_request token url]\<rparr>)"
  by (auto simp: fetch_json_def send_def raise_if_token_rejected_def reraise_def io_defs split: sum.splits)

interpretation fj: bearer_call "\<lambda>srv. fetch_json srv token url what" "get_request token url" for token url what
  by unfold_locales (auto simp: fetch_json_run reraise_def http_info_def)

lemma fetch_json_Inr_iff:
  "fetch_json srv token url what w = (Inr j, w') \<longleftrightarrow>
     (\<exists>r. srv (hist w) (get_request token url) = Inr r \<and> rs_status r = 200 \<and> rs_json r = Inr j) \<and>
     w' = w\<lparr>hist := hist w @ [get_request token url]\<rparr>"
  by (auto simp: fetch_json_run rejected_def split: sum.splits if_splits)

subsection \<open>The account identifier of an access token\<close>

definition MAX_ACCOUNT_ID_LENGTH :: nat where
  "MAX_ACCOUNT_ID_LENGTH = 128"

text \<open>
  \<open>loads\<close> stands for \<open>json.loads(data.decode())\<close>. Unpacking fails unless there are three parts,
  and a subscript of a value that is no object raises \<open>TypeError\<close>; each of these, like a malformed
  encoding, becomes the authentication error.
\<close>

definition token_claim :: "(bytes \<Rightarrow> exn + json) \<Rightarrow> string \<Rightarrow> exn + json" where
  "token_claim loads access_token =
     (case split_on (CHR ''.'') access_token of
        [_, payload, _] \<Rightarrow>
          (case urlsafe_b64decode (payload @ pad4 payload) of
             Inl e \<Rightarrow> Inl e
           | Inr data \<Rightarrow>
               (case loads data of
                  Inl e \<Rightarrow> Inl e
                | Inr (JObj claims) \<Rightarrow> (case dict_get claims ''sub'' of None \<Rightarrow> Inl KeyError | Some v \<Rightarrow> Inr v)
                | Inr _ \<Rightarrow> Inl TypeError))
      | _ \<Rightarrow> Inl (ValueError ''unpack''))"

definition account_id_from_token :: "(bytes \<Rightarrow> exn + json) \<Rightarrow> string \<Rightarrow> exn + string" where
  "account_id_from_token loads access_token =
     (case token_claim loads access_token of
        Inl e \<Rightarrow>
          if is_value_error e \<or> e = KeyError \<or> e = TypeError
          then Inl (BoschCameraAuthError (plain_info ''access token has no readable subject'')) else Inl e
      | Inr (JStr s) \<Rightarrow>
          if py_strip s = [] \<or> MAX_ACCOUNT_ID_LENGTH < length s
          then Inl (BoschCameraAuthError (plain_info ''access token has no usable subject'')) else Inr s
      | Inr _ \<Rightarrow> Inl (BoschCameraAuthError (plain_info ''access token has no usable subject'')))"

lemma account_id_bounds:
  "account_id_from_token loads t = Inr s \<Longrightarrow> s \<noteq> [] \<and> py_strip s \<noteq> [] \<and> length s \<le> 128"
  by (auto simp: account_id_from_token_def MAX_ACCOUNT_ID_LENGTH_def py_strip_def strip_def lstrip_def rstrip_def
      split: sum.splits json.splits if_splits)

subsection \<open>The camera list\<close>

datatype CameraModel = EYES_OUTDOOR | INDOOR_360 | EYES_OUTDOOR_II | EYES_INDOOR_II | UNKNOWN

definition MODEL_BY_HARDWARE :: "(string, CameraModel) dict" where
  "MODEL_BY_HARDWARE =
     [(''CAMERA_EYES'', EYES_OUTDOOR), (''OUTDOOR'', EYES_OUTDOOR), (''CAMERA_360'', INDOOR_360),
      (''INDOOR'', INDOOR_360), (''HOME_Eyes_Outdoor'', EYES_OUTDOOR_II), (''HOME_Eyes_Indoor'', EYES_INDOOR_II)]"

record Camera =
  cam_id :: string
  cam_title :: string
  cam_hardware_version :: string
  cam_model :: CameraModel
  cam_firmware_version :: "string option"

definition invalid :: "string \<Rightarrow> exn" where
  "invalid m = BoschCameraInvalidResponseError (plain_info m)"

definition parse_camera :: "json \<Rightarrow> exn + Camera" where
  "parse_camera item =
     (case as_obj item of
        None \<Rightarrow> Inl (invalid ''Camera entry is not an object'')
      | Some d \<Rightarrow>
          (case nonempty_str (get d ''id'') of
             None \<Rightarrow> Inl (invalid ''Camera entry has no id'')
           | Some camera_id \<Rightarrow>
               let hardware_version = (case get d ''hardwareVersion'' of JStr s \<Rightarrow> s | _ \<Rightarrow> []) in
               Inr \<lparr>cam_id = camera_id,
                    cam_title = (case nonempty_str (get d ''title'') of Some t \<Rightarrow> t | None \<Rightarrow> camera_id),
                    cam_hardware_version = hardware_version,
                    cam_model = (case dict_get MODEL_BY_HARDWARE hardware_version of Some m \<Rightarrow> m | None \<Rightarrow> UNKNOWN),
                    cam_firmware_version = nonempty_str (get d ''firmwareVersion'')\<rparr>))"

text \<open>A list comprehension over a function that may raise: the first error ends it.\<close>

fun map_exn :: "('a \<Rightarrow> exn + 'b) \<Rightarrow> 'a list \<Rightarrow> exn + 'b list" where
  "map_exn f [] = Inr []"
| "map_exn f (x # xs) =
     (case f x of Inl e \<Rightarrow> Inl e | Inr y \<Rightarrow> (case map_exn f xs of Inl e \<Rightarrow> Inl e | Inr ys \<Rightarrow> Inr (y # ys)))"

definition list_cameras :: "server \<Rightarrow> string \<Rightarrow> string \<Rightarrow> ('z net_scheme, Camera list) io" where
  "list_cameras srv token api_url =
     bind_io (fetch_json srv token (api_url @ ''/v11/video_inputs'') ''Camera list'') (\<lambda>payload.
       case as_list payload of
         None \<Rightarrow> raise (invalid ''Camera list is not an array'')
       | Some items \<Rightarrow> lift (map_exn parse_camera items))"

lemma map_exn_Inr_iff: "map_exn f xs = Inr ys \<longleftrightarrow> list_all2 (\<lambda>x y. f x = Inr y) xs ys"
proof (induction xs arbitrary: ys)
  case (Cons x xs)
  have "map_exn f xs = Inr zs \<longleftrightarrow> list_all2 (\<lambda>x y. f x = Inr y) xs zs" for zs by (rule Cons.IH)
  then show ?case by (cases ys; cases "map_exn f xs") (auto split: sum.splits)
qed auto

lemma parse_camera_id: "parse_camera item = Inr c \<Longrightarrow> cam_id c \<noteq> [] \<and> cam_title c \<noteq> []"
  by (auto simp: parse_camera_def Let_def split: option.splits)

subsection \<open>The newest event image\<close>

definition MAX_IMAGE_BYTES :: nat where
  "MAX_IMAGE_BYTES = 10 * 1024 * 1024"

text \<open>A Bosch HTTPS URL without user info.\<close>

definition is_downloadable :: "(string \<Rightarrow> bool) \<Rightarrow> string \<Rightarrow> bool" where
  "is_downloadable netloc_ok url \<longleftrightarrow>
     is_safe_bosch_url netloc_ok DEFAULT_SAFE_DOMAINS url \<and>
     (case urlparse netloc_ok url of Inl _ \<Rightarrow> False | Inr p \<Rightarrow> CHR ''@'' \<notin> set (up_netloc p))"

text \<open>The accumulated chunks; \<open>Inr None\<close> as soon as they exceed the limit.\<close>

fun take_chunks :: "nat \<Rightarrow> bytes list \<Rightarrow> exn option \<Rightarrow> bytes \<Rightarrow> exn + bytes option" where
  "take_chunks limit [] fail img = (case fail of Some e \<Rightarrow> Inl e | None \<Rightarrow> Inr (Some img))"
| "take_chunks limit (chunk # chunks) fail img =
     (if limit < length (img @ chunk) then Inr None else take_chunks limit chunks fail (img @ chunk))"

definition image_request :: "string \<Rightarrow> string \<Rightarrow> request" where
  "image_request token url =
     (mk_request ''GET'' url [] [(''Authorization'', bearer token), (''Accept'', ''*/*'')] NoBody)\<lparr>rq_redirects := False\<rparr>"

definition download_image :: "server \<Rightarrow> string \<Rightarrow> string \<Rightarrow> ('z net_scheme, bytes option) io" where
  "download_image srv token url =
     catch_io
       (bind_io (send srv (image_request token url)) (\<lambda>resp.
          if rs_status resp \<noteq> 200 then ret None
          else bind_io (lift (take_chunks MAX_IMAGE_BYTES (fst (rs_chunks resp)) (snd (rs_chunks resp)) []))
            (\<lambda>r. ret (case r of None \<Rightarrow> None | Some img \<Rightarrow> if img = [] then None else Some img))))
       (\<lambda>e. if is_net_error e \<or> is_value_error e then ret None else raise e)"

definition event_image_url :: "(string \<Rightarrow> bool) \<Rightarrow> json \<Rightarrow> string option" where
  "event_image_url netloc_ok event =
     (case event of
        JObj d \<Rightarrow> (case get d ''imageUrl'' of JStr u \<Rightarrow> if is_downloadable netloc_ok u then Some u else None | _ \<Rightarrow> None)
      | _ \<Rightarrow> None)"

fun first_image :: "server \<Rightarrow> (string \<Rightarrow> bool) \<Rightarrow> string \<Rightarrow> json list \<Rightarrow> ('z net_scheme, bytes option) io" where
  "first_image srv netloc_ok token [] = ret None"
| "first_image srv netloc_ok token (event # events) =
     (case event_image_url netloc_ok event of
        None \<Rightarrow> first_image srv netloc_ok token events
      | Some url \<Rightarrow> bind_io (download_image srv token url) (\<lambda>img.
          case img of Some _ \<Rightarrow> ret img | None \<Rightarrow> first_image srv netloc_ok token events))"

definition events_request :: "string \<Rightarrow> string \<Rightarrow> string \<Rightarrow> request" where
  "events_request token api_url camera_id =
     mk_request ''GET'' (api_url @ ''/v11/events'') [(''videoInputId'', camera_id)]
       [(''Authorization'', bearer token), (''Accept'', ''application/json'')] NoBody"

definition get_latest_event_image ::
    "server \<Rightarrow> (string \<Rightarrow> bool) \<Rightarrow> string \<Rightarrow> string \<Rightarrow> string \<Rightarrow> ('z net_scheme, bytes option) io" where
  "get_latest_event_image srv netloc_ok token camera_id api_url =
     bind_io
       (catch_io
         (bind_io (send srv (events_request token api_url camera_id)) (\<lambda>resp.
            if rejected (rs_status resp)
            then raise (BoschCameraAuthError (plain_info (''Token rejected (HTTP '' @ int_str (rs_status resp) @ '')'')))
            else if rs_status resp \<noteq> 200
            then raise (BoschCameraConnectionError (plain_info (''Event list returned HTTP '' @ int_str (rs_status resp))))
            else lift (rs_json resp)))
         (\<lambda>e. raise (reraise e)))
       (\<lambda>payload.
          case as_list payload of
            None \<Rightarrow> raise (invalid ''Event list is not an array'')
          | Some events \<Rightarrow> first_image srv netloc_ok token events)"

text \<open>What a download sends and returns.\<close>

lemma download_image_hist: "hist (snd (download_image srv token url w)) = hist w @ [image_request token url]"
  by (auto simp: download_image_def send_def io_defs split: sum.splits option.splits)

lemma take_chunks_limit:
  "length img \<le> limit \<Longrightarrow> take_chunks limit cs f img = Inr (Some r) \<Longrightarrow> length r \<le> limit \<and> r = img @ concat cs"
proof (induction cs arbitrary: img)
  case (Cons c cs)
  from Cons.prems(2) have "length (img @ c) \<le> limit" "take_chunks limit cs f (img @ c) = Inr (Some r)"
    by (auto split: if_splits)
  from Cons.IH [OF this] show ?case by (metis append.assoc concat.simps(2))
qed (auto split: option.splits)

lemma download_image_Some:
  assumes "download_image srv token url w = (Inr (Some img), w')"
  shows "img \<noteq> [] \<and> length img \<le> MAX_IMAGE_BYTES \<and>
    (\<exists>r. srv (hist w) (image_request token url) = Inr r \<and> rs_status r = 200 \<and> img = concat (fst (rs_chunks r)))"
proof -
  obtain r where r: "srv (hist w) (image_request token url) = Inr r" "rs_status r = 200"
    "take_chunks MAX_IMAGE_BYTES (fst (rs_chunks r)) (snd (rs_chunks r)) [] = Inr (Some img)" "img \<noteq> []"
    using assms by (auto simp: download_image_def send_def io_defs split: sum.splits option.splits if_splits)
  from take_chunks_limit [OF _ r(3)] r show ?thesis by auto
qed

text \<open>The requests of the search: downloadable URLs only, with redirects off.\<close>

definition image_traffic :: "(string \<Rightarrow> bool) \<Rightarrow> string \<Rightarrow> request \<Rightarrow> bool" where
  "image_traffic netloc_ok token rq \<longleftrightarrow>
     rq = image_request token (rq_url rq) \<and> is_downloadable netloc_ok (rq_url rq)"

lemma event_image_url_downloadable: "event_image_url ok e = Some u \<Longrightarrow> is_downloadable ok u"
  by (auto simp: event_image_url_def split: json.splits if_splits)

lemma first_image_hist:
  "\<exists>new. hist (snd (first_image srv ok token es w)) = hist w @ new \<and> list_all (image_traffic ok token) new"
proof (induction es arbitrary: w)
  case Nil
  then show ?case by (simp add: ret_def)
next
  case (Cons e es)
  show ?case
  proof (cases "event_image_url ok e")
    case None
    then show ?thesis using Cons by simp
  next
    case (Some url)
    obtain r w1 where d: "download_image srv token url w = (r, w1)" by (cases "download_image srv token url w")
    have h: "hist w1 = hist w @ [image_request token url]"
      using download_image_hist [of srv token url w] d by simp
    have t: "image_traffic ok token (image_request token url)"
      using event_image_url_downloadable [OF Some]
      by (simp add: image_traffic_def image_request_def mk_request_def)
    from Cons [of w1] obtain new where
      "hist (snd (first_image srv ok token es w1)) = hist w1 @ new" "list_all (image_traffic ok token) new" by blast
    then show ?thesis using Some d h t
      by (auto simp: bind_io_def ret_def split: sum.splits option.splits)
  qed
qed

lemma download_image_answer:
  assumes "download_image srv token url w = (Inr (Some img), w')"
  shows "\<exists>pre rq r. hist w' = pre @ [rq] \<and> srv pre rq = Inr r \<and> rs_status r = 200 \<and> img = concat (fst (rs_chunks r)) \<and>
    img \<noteq> [] \<and> length img \<le> MAX_IMAGE_BYTES"
  using download_image_Some [OF assms] download_image_hist [of srv token url w] assms by auto

lemma first_image_Some:
  "first_image srv ok token es w = (Inr (Some img), w') \<Longrightarrow>
    \<exists>pre rq r. hist w' = pre @ [rq] \<and> srv pre rq = Inr r \<and> rs_status r = 200 \<and> img = concat (fst (rs_chunks r)) \<and>
      img \<noteq> [] \<and> length img \<le> MAX_IMAGE_BYTES"
proof (induction es arbitrary: w)
  case Nil
  then show ?case by (simp add: ret_def)
next
  case (Cons e es)
  show ?case
  proof (cases "event_image_url ok e")
    case None
    with Cons show ?thesis by simp
  next
    case (Some url)
    with Cons.prems obtain x w1 where d: "download_image srv token url w = (Inr x, w1)"
      "(case x of Some _ \<Rightarrow> ret x | None \<Rightarrow> first_image srv ok token es) w1 = (Inr (Some img), w')"
      by (auto simp: bind_io_Inr_iff)
    show ?thesis
    proof (cases x)
      case None
      with d(2) show ?thesis by (intro Cons.IH) simp
    next
      case (Some i)
      with d have "download_image srv token url w = (Inr (Some img), w')" by (simp add: ret_def)
      then show ?thesis by (rule download_image_answer)
    qed
  qed
qed

text \<open>What such a request is, in full.\<close>

lemma image_traffic_literal:
  assumes "image_traffic ok token rq"
  shows "rq_method rq = ''GET'' \<and> rq_params rq = [] \<and> rq_body rq = NoBody \<and> \<not> rq_redirects rq \<and>
    rq_headers rq = [(''Authorization'', ''Bearer '' @ token), (''Accept'', ''*/*'')] \<and>
    (\<exists>p h. urlparse ok (rq_url rq) = Inr p \<and> up_scheme p = ''https'' \<and> CHR ''@'' \<notin> set (up_netloc p) \<and>
       hostname (up_netloc p) = Some h \<and> ((\<exists>x. h = x @ ''.boschsecurity.com'') \<or> (\<exists>x. h = x @ ''.bosch.com'')))"
proof -
  have e: "ends_with d h \<Longrightarrow> \<exists>x. h = x @ d" for d h :: string
    unfolding ends_with_def by (metis append_take_drop_id)
  from assms have rq: "rq = image_request token (rq_url rq)" and u: "is_downloadable ok (rq_url rq)"
    by (simp_all add: image_traffic_def)
  from u obtain p h where p: "urlparse ok (rq_url rq) = Inr p" "up_scheme p = ''https''" "CHR ''@'' \<notin> set (up_netloc p)"
    "hostname (up_netloc p) = Some h" "list_ex (\<lambda>d. ends_with d h) DEFAULT_SAFE_DOMAINS"
    by (auto simp: is_downloadable_def is_safe_bosch_url_def split: sum.splits option.splits)
  from p(5) have "(\<exists>x. h = x @ ''.boschsecurity.com'') \<or> (\<exists>x. h = x @ ''.bosch.com'')"
    unfolding DEFAULT_SAFE_DOMAINS_def list_ex_iff using e by auto
  with p(1-4) show ?thesis by (subst (1 2 3 4 5) rq) (simp add: image_request_def mk_request_def bearer_def)
qed

definition event_list_answer :: "exn + response \<Rightarrow> exn + json" where
  "event_list_answer answer =
     (case answer of
        Inl e \<Rightarrow> Inl (reraise e)
      | Inr r \<Rightarrow>
          if rejected (rs_status r)
          then Inl (BoschCameraAuthError (plain_info (''Token rejected (HTTP '' @ int_str (rs_status r) @ '')'')))
          else if rs_status r \<noteq> 200
          then Inl (BoschCameraConnectionError (plain_info (''Event list returned HTTP '' @ int_str (rs_status r))))
          else (case rs_json r of Inl e \<Rightarrow> Inl (reraise e) | Inr j \<Rightarrow> Inr j))"

lemma get_latest_event_image_run:
  "get_latest_event_image srv ok token cam api_url w =
     (let w' = w\<lparr>hist := hist w @ [events_request token api_url cam]\<rparr> in
      case event_list_answer (srv (hist w) (events_request token api_url cam)) of
        Inl e \<Rightarrow> (Inl e, w')
      | Inr j \<Rightarrow> (case as_list j of
            None \<Rightarrow> (Inl (invalid ''Event list is not an array''), w')
          | Some es \<Rightarrow> first_image srv ok token es w'))"
proof (cases "srv (hist w) (events_request token api_url cam)")
  case (Inl e)
  then show ?thesis by (simp add: get_latest_event_image_def event_list_answer_def send_def io_defs Let_def)
next
  case (Inr r)
  have "reraise (BoschCameraAuthError i) = BoschCameraAuthError i"
    "reraise (BoschCameraConnectionError i) = BoschCameraConnectionError i" for i
    by (simp_all add: reraise_def)
  with Inr show ?thesis
    by (cases "rs_json r") (simp_all add: get_latest_event_image_def event_list_answer_def send_def io_defs Let_def split: option.split)
qed


end
