(* ===== verification/Cloud.thy ===== *)
theory Cloud
  imports Cameras
begin

section \<open>Cloud writes and camera actions\<close>

text \<open>
  \<open>cloud.py\<close>: the PUT with a graceful outcome (network faults become a result without status)
  and the four setters built on it. \<open>actions.py\<close>: the PUT that raises, and the two pings. The
  raising calls interpret \<open>bearer_call\<close>; the graceful PUT has the contract \<open>graceful_put\<close>.
\<close>

definition CLOUD_API :: string where
  "CLOUD_API = ''https://residential.cbs.boschsecurity.com''"

definition video_input_url :: "string \<Rightarrow> string \<Rightarrow> string \<Rightarrow> string" where
  "video_input_url api_url camera_id action = api_url @ ''/v11/video_inputs/'' @ camera_id @ ''/'' @ action"

subsection \<open>cloud_put_json\<close>

record CloudPutResult =
  cp_ok :: bool
  cp_status :: "int option"
  cp_body :: "obj option"
  cp_text :: "string option"

definition put_request :: "string \<Rightarrow> string \<Rightarrow> json \<Rightarrow> request" where
  "put_request token url body =
     mk_request ''PUT'' url []
       [(''Authorization'', bearer token), (''Content-Type'', ''application/json''), (''Accept'', ''application/json'')]
       (JsonBody body)"

definition put_outcome :: "response \<Rightarrow> CloudPutResult" where
  "put_outcome resp =
     (let ok = ok_status (rs_status resp) in
      \<lparr>cp_ok = ok, cp_status = Some (rs_status resp),
       cp_body = (if ok then (case rs_json_typed resp of Inl _ \<Rightarrow> None | Inr candidate \<Rightarrow> as_obj candidate) else None),
       cp_text = (case rs_text resp of Inl _ \<Rightarrow> None | Inr t \<Rightarrow> Some t)\<rparr>)"

definition no_answer :: CloudPutResult where
  "no_answer = \<lparr>cp_ok = False, cp_status = None, cp_body = None, cp_text = None\<rparr>"

definition cloud_put_json :: "server \<Rightarrow> string \<Rightarrow> string \<Rightarrow> json \<Rightarrow> ('z net_scheme, CloudPutResult) io" where
  "cloud_put_json srv token url body =
     catch_io (bind_io (send srv (put_request token url body)) (\<lambda>resp. ret (put_outcome resp)))
       (\<lambda>e. if is_net_error e then ret no_answer else raise e)"

lemma cloud_put_json_run:
  "cloud_put_json srv token url body w =
     ((case srv (hist w) (put_request token url body) of
         Inl e \<Rightarrow> if is_net_error e then Inr no_answer else Inl e
       | Inr r \<Rightarrow> Inr (put_outcome r)),
      w\<lparr>hist := hist w @ [put_request token url body]\<rparr>)"
  by (auto simp: cloud_put_json_def send_def io_defs split: sum.splits)

text \<open>
  The contract of a graceful write: one request, a result for every answer and every network
  fault, success exactly on an accepted status, and a body only with success.
\<close>

locale graceful_put =
  fixes put :: "server \<Rightarrow> ('z net_scheme, CloudPutResult) io"
    and rq :: request
  assumes sends: "snd (put srv w) = w\<lparr>hist := hist w @ [rq]\<rparr>"
    and answered: "srv (hist w) rq = Inr r \<Longrightarrow> fst (put srv w) = Inr (put_outcome r)"
    and unanswered: "srv (hist w) rq = Inl e \<Longrightarrow>
      fst (put srv w) = (if is_net_error e then Inr no_answer else Inl e)"
begin

lemma ok_iff:
  assumes "put srv w = (Inr res, w')"
  shows "cp_ok res \<longleftrightarrow> (\<exists>r. srv (hist w) rq = Inr r \<and> ok_status (rs_status r) \<and> cp_status res = Some (rs_status r))"
  using assms answered [of srv w] unanswered [of srv w]
  by (cases "srv (hist w) rq") (auto simp: put_outcome_def no_answer_def Let_def split: if_splits)

lemma body_only_when_ok:
  assumes "put srv w = (Inr res, w')" "cp_body res \<noteq> None"
  shows "cp_ok res"
  using assms answered [of srv w] unanswered [of srv w]
  by (cases "srv (hist w) rq") (auto simp: put_outcome_def no_answer_def Let_def split: if_splits)

lemma status_none_iff:
  assumes "put srv w = (Inr res, w')"
  shows "cp_status res = None \<longleftrightarrow> (\<exists>e. srv (hist w) rq = Inl e \<and> is_net_error e)"
  using assms answered [of srv w] unanswered [of srv w]
  by (cases "srv (hist w) rq") (auto simp: put_outcome_def no_answer_def Let_def split: if_splits)

end

interpretation cpj: graceful_put "\<lambda>srv. cloud_put_json srv token url body" "put_request token url body" for token url body
  by unfold_locales (simp_all add: cloud_put_json_run)

subsection \<open>The four setters\<close>

definition privacy_body :: "bool \<Rightarrow> json" where
  "privacy_body enabled =
     JObj [(''privacyMode'', JStr (if enabled then ''ON'' else ''OFF'')), (''durationInSeconds'', JNull)]"

definition cloud_set_privacy_mode :: "server \<Rightarrow> string \<Rightarrow> string \<Rightarrow> bool \<Rightarrow> ('z net_scheme, CloudPutResult) io" where
  "cloud_set_privacy_mode srv token camera_id enabled =
     cloud_put_json srv token (video_input_url CLOUD_API camera_id ''privacy'') (privacy_body enabled)"

record CameraLightSetResult =
  cl_ok :: bool
  cl_status :: "int option"
  cl_text :: "string option"
  cl_topdown_status :: "int option"
  cl_topdown_text :: "string option"

definition light_override_body :: "bool \<Rightarrow> json \<Rightarrow> json" where
  "light_override_body on last_front_intensity =
     (if on then JObj [(''frontLightOn'', JBool True), (''wallwasherOn'', JBool True),
                       (''frontLightIntensity'', last_front_intensity)]
      else JObj [(''frontLightOn'', JBool False), (''wallwasherOn'', JBool False)])"

definition cloud_set_camera_light ::
    "server \<Rightarrow> string \<Rightarrow> string \<Rightarrow> bool \<Rightarrow> bool \<Rightarrow> json \<Rightarrow> ('z net_scheme, CameraLightSetResult) io" where
  "cloud_set_camera_light srv token camera_id on gen2 last_front_intensity =
     (if gen2 then
        let base = video_input_url CLOUD_API camera_id ''lighting/switch''; toggle = JObj [(''enabled'', JBool on)] in
        bind_io (cloud_put_json srv token (base @ ''/front'') toggle) (\<lambda>r1.
        bind_io (cloud_put_json srv token (base @ ''/topdown'') toggle) (\<lambda>r2.
          ret \<lparr>cl_ok = (cp_ok r1 \<or> cp_ok r2), cl_status = cp_status r1, cl_text = cp_text r1,
               cl_topdown_status = cp_status r2, cl_topdown_text = cp_text r2\<rparr>))
      else
        bind_io (cloud_put_json srv token (video_input_url CLOUD_API camera_id ''lighting_override'')
                   (light_override_body on last_front_intensity)) (\<lambda>r.
          ret \<lparr>cl_ok = cp_ok r, cl_status = cp_status r, cl_text = cp_text r,
               cl_topdown_status = None, cl_topdown_text = None\<rparr>))"

definition cloud_set_notifications :: "server \<Rightarrow> string \<Rightarrow> string \<Rightarrow> bool \<Rightarrow> ('z net_scheme, CloudPutResult) io" where
  "cloud_set_notifications srv token camera_id enabled =
     cloud_put_json srv token (video_input_url CLOUD_API camera_id ''enable_notifications'')
       (JObj [(''enabledNotificationsStatus'', JStr (if enabled then ''FOLLOW_CAMERA_SCHEDULE'' else ''ALWAYS_OFF''))])"

text \<open>Position and duration are whatever JSON values the answer holds under the two keys.\<close>

record PanSetResult =
  ps_ok :: bool
  ps_status :: "int option"
  ps_position :: "json option"
  ps_eta_ms :: json

definition get_default :: "obj \<Rightarrow> string \<Rightarrow> json \<Rightarrow> json" where
  "get_default d k v = (case dict_get d k of None \<Rightarrow> v | Some x \<Rightarrow> x)"

definition cloud_set_pan :: "server \<Rightarrow> string \<Rightarrow> string \<Rightarrow> int \<Rightarrow> ('z net_scheme, PanSetResult) io" where
  "cloud_set_pan srv token camera_id position =
     bind_io (cloud_put_json srv token (video_input_url CLOUD_API camera_id ''pan'') (JObj [(''absolutePosition'', JInt position)]))
       (\<lambda>r.
         if \<not> cp_ok r then ret \<lparr>ps_ok = False, ps_status = cp_status r, ps_position = None, ps_eta_ms = JInt 0\<rparr>
         else
           let (actual, eta) =
             (case cp_body r of
                None \<Rightarrow> (JInt position, JInt 0)
              | Some d \<Rightarrow> (get_default d ''currentAbsolutePosition'' (JInt position),
                           get_default d ''estimatedTimeToCompletion'' (JInt 0)))
           in ret \<lparr>ps_ok = True, ps_status = cp_status r, ps_position = Some actual, ps_eta_ms = eta\<rparr>)"

subsection \<open>Actions\<close>

record ActionResult =
  ar_ok :: bool
  ar_status :: int

definition action_request :: "string \<Rightarrow> string \<Rightarrow> json option \<Rightarrow> request" where
  "action_request token url body =
     mk_request ''PUT'' url [] [(''Authorization'', bearer token), (''Content-Type'', ''application/json'')]
       (case body of None \<Rightarrow> EmptyBody | Some j \<Rightarrow> JsonBody j)"

definition net_reraise :: "exn \<Rightarrow> ('s, 'a) io" where
  "net_reraise e =
     raise (if is_net_error e then BoschCameraConnectionError (plain_info (net_error_text e)) else e)"

definition put_action :: "server \<Rightarrow> string \<Rightarrow> string \<Rightarrow> json option \<Rightarrow> ('z net_scheme, ActionResult) io" where
  "put_action srv token url body =
     catch_io
       (bind_io (send srv (action_request token url body)) (\<lambda>resp.
        bind_io (raise_if_token_rejected resp) (\<lambda>_.
          ret \<lparr>ar_ok = ok_status (rs_status resp), ar_status = rs_status resp\<rparr>)))
       net_reraise"

definition soft_reset :: "server \<Rightarrow> string \<Rightarrow> string \<Rightarrow> string \<Rightarrow> ('z net_scheme, ActionResult) io" where
  "soft_reset srv token camera_id api_url = put_action srv token (video_input_url api_url camera_id ''soft_reset'') None"

definition hard_reset :: "server \<Rightarrow> string \<Rightarrow> string \<Rightarrow> string \<Rightarrow> ('z net_scheme, ActionResult) io" where
  "hard_reset srv token camera_id api_url = put_action srv token (video_input_url api_url camera_id ''hard_reset'') None"

definition panic_alarm :: "server \<Rightarrow> string \<Rightarrow> string \<Rightarrow> bool \<Rightarrow> string \<Rightarrow> ('z net_scheme, ActionResult) io" where
  "panic_alarm srv token camera_id enabled api_url =
     put_action srv token (video_input_url api_url camera_id ''panic_alarm'')
       (Some (JObj [(''status'', JStr (if enabled then ''ON'' else ''OFF''))]))"

lemma put_action_run:
  "put_action srv token url body w =
     ((case srv (hist w) (action_request token url body) of
         Inl e \<Rightarrow> Inl (if is_net_error e then BoschCameraConnectionError (plain_info (net_error_text e)) else e)
       | Inr r \<Rightarrow>
           if rejected (rs_status r)
           then Inl (BoschCameraAuthError
             (http_info (''Token rejected (HTTP '' @ int_str (rs_status r) @ '')'') (rs_status r) (read_error_body r)))
           else Inr \<lparr>ar_ok = ok_status (rs_status r), ar_status = rs_status r\<rparr>),
      w\<lparr>hist := hist w @ [action_request token url body]\<rparr>)"
  by (auto simp: put_action_def net_reraise_def send_def raise_if_token_rejected_def io_defs split: sum.splits)

interpretation pa: bearer_call "\<lambda>srv. put_action srv token url body" "action_request token url body" for token url body
  by unfold_locales (auto simp: put_action_run http_info_def)

subsection \<open>Ping\<close>

definition SESSION_LIMIT_HTTP_STATUS :: int where
  "SESSION_LIMIT_HTTP_STATUS = 444"

definition SESSION_LIMIT :: string where
  "SESSION_LIMIT = ''SESSION_LIMIT''"

definition ping_request :: "string \<Rightarrow> string \<Rightarrow> request" where
  "ping_request token url = mk_request ''GET'' url [] [(''Authorization'', bearer token)] NoBody"

definition ping_text :: "string \<Rightarrow> string" where
  "ping_text t = strip (\<lambda>c. c = CHR 0x22) (py_strip t)"

definition fold_updating :: "string \<Rightarrow> string" where
  "fold_updating text = (if starts_with ''UPDATING'' text then ''UPDATING'' else text)"

text \<open>The session limit is returned from inside the \<open>try\<close> block: \<open>Inl\<close> is that early return.\<close>

definition ping :: "server \<Rightarrow> string \<Rightarrow> string \<Rightarrow> string \<Rightarrow> ('z net_scheme, string) io" where
  "ping srv token camera_id api_url =
     bind_io
       (catch_io
         (bind_io (send srv (ping_request token (video_input_url api_url camera_id ''ping''))) (\<lambda>resp.
          bind_io (raise_if_token_rejected resp) (\<lambda>_.
            if rs_status resp = SESSION_LIMIT_HTTP_STATUS then ret (Inl SESSION_LIMIT)
            else if rs_status resp \<noteq> 200
            then raise (BoschCameraConnectionError
              (http_info (''Ping returned HTTP '' @ int_str (rs_status resp)) (rs_status resp) (read_error_body resp)))
            else bind_io (lift (rs_text_lax resp)) (\<lambda>t. ret (Inr (ping_text t))))))
         net_reraise)
       (\<lambda>r. case r of
          Inl early \<Rightarrow> ret early
        | Inr text \<Rightarrow>
            if text = [] then raise (invalid ''Ping answered without a status'') else ret (fold_updating text))"

definition ping_raw :: "server \<Rightarrow> string \<Rightarrow> string \<Rightarrow> string \<Rightarrow> ('z net_scheme, string \<times> bool) io" where
  "ping_raw srv token camera_id api_url =
     catch_io
       (bind_io (send srv (ping_request token (video_input_url api_url camera_id ''ping''))) (\<lambda>resp.
          if rs_status resp = SESSION_LIMIT_HTTP_STATUS then ret (SESSION_LIMIT, True)
          else if rs_status resp \<noteq> 200 then ret ([], False)
          else bind_io (lift (rs_text resp)) (\<lambda>t. ret (fold_updating (ping_text t), True))))
       (\<lambda>e. if is_net_error e then ret ([], False) else raise e)"

lemma ping_run:
  "ping srv token camera_id api_url w =
     ((case srv (hist w) (ping_request token (video_input_url api_url camera_id ''ping'')) of
         Inl e \<Rightarrow> Inl (if is_net_error e then BoschCameraConnectionError (plain_info (net_error_text e)) else e)
       | Inr r \<Rightarrow>
           if rejected (rs_status r)
           then Inl (BoschCameraAuthError
             (http_info (''Token rejected (HTTP '' @ int_str (rs_status r) @ '')'') (rs_status r) (read_error_body r)))
           else if rs_status r = SESSION_LIMIT_HTTP_STATUS then Inr SESSION_LIMIT
           else if rs_status r \<noteq> 200
           then Inl (BoschCameraConnectionError
             (http_info (''Ping returned HTTP '' @ int_str (rs_status r)) (rs_status r) (read_error_body r)))
           else (case rs_text_lax r of
               Inl e \<Rightarrow> Inl (if is_net_error e then BoschCameraConnectionError (plain_info (net_error_text e)) else e)
             | Inr t \<Rightarrow>
                 if ping_text t = [] then Inl (invalid ''Ping answered without a status'')
                 else Inr (fold_updating (ping_text t)))),
      w\<lparr>hist := hist w @ [ping_request token (video_input_url api_url camera_id ''ping'')]\<rparr>)"
  by (auto simp: ping_def net_reraise_def send_def raise_if_token_rejected_def io_defs split: sum.splits)

interpretation pg: bearer_call "\<lambda>srv. ping srv token camera_id api_url"
    "ping_request token (video_input_url api_url camera_id ''ping'')" for token camera_id api_url
  by unfold_locales (auto simp: ping_run http_info_def)

lemma ping_raw_run:
  "ping_raw srv token camera_id api_url w =
     ((case srv (hist w) (ping_request token (video_input_url api_url camera_id ''ping'')) of
         Inl e \<Rightarrow> if is_net_error e then Inr ([], False) else Inl e
       | Inr r \<Rightarrow>
           if rs_status r = SESSION_LIMIT_HTTP_STATUS then Inr (SESSION_LIMIT, True)
           else if rs_status r \<noteq> 200 then Inr ([], False)
           else (case rs_text r of
               Inl e \<Rightarrow> if is_net_error e then Inr ([], False) else Inl e
             | Inr t \<Rightarrow> Inr (fold_updating (ping_text t), True))),
      w\<lparr>hist := hist w @ [ping_request token (video_input_url api_url camera_id ''ping'')]\<rparr>)"
  by (auto simp: ping_raw_def send_def io_defs split: sum.splits)

subsection \<open>Properties\<close>

text \<open>C40
  Switching the light of a second-generation camera always sends both PUTs, front before top-down and
  the second also when the first failed, unless an exception other than a network fault ends it; it
  succeeds when either was accepted, and reports each status separately.\<close>

theorem gen2_light_both:
  assumes "\<And>past rq e. srv past rq = Inl e \<Longrightarrow> is_net_error e"
  shows "let url = (\<lambda>part. video_input_url CLOUD_API cam (''lighting/switch/'' @ part)); toggle = JObj [(''enabled'', JBool on)];
      front = put_request token (url ''front'') toggle; top = put_request token (url ''topdown'') toggle;
      outcome = (\<lambda>past rq. case srv past rq of Inl e \<Rightarrow> no_answer | Inr r \<Rightarrow> put_outcome r);
      r1 = outcome (hist w) front; r2 = outcome (hist w @ [front]) top in
    cloud_set_camera_light srv token cam on True intensity w =
      (Inr \<lparr>cl_ok = (cp_ok r1 \<or> cp_ok r2), cl_status = cp_status r1, cl_text = cp_text r1,
            cl_topdown_status = cp_status r2, cl_topdown_text = cp_text r2\<rparr>,
       w\<lparr>hist := hist w @ [front, top]\<rparr>)"
proof -
  have run: "cloud_put_json srv token url body w =
      (Inr (case srv (hist w) (put_request token url body) of Inl e \<Rightarrow> no_answer | Inr r \<Rightarrow> put_outcome r),
       w\<lparr>hist := hist w @ [put_request token url body]\<rparr>)" for url body and w :: "'a net_scheme"
    using assms by (auto simp: cloud_put_json_run split: sum.split)
  show ?thesis
    by (simp add: cloud_set_camera_light_def Let_def bind_io_def ret_def run video_input_url_def)
qed

theorem gen2_light_both_witness:
  "cl_ok (projr (fst (cloud_set_camera_light (\<lambda>past _. if past = [] then Inl TimeoutError else Inr (plain_response 204 [] JNull))
      ''t'' ''c'' True True JNull \<lparr>hist = []\<rparr>)))"
proof -
  let ?srv = "\<lambda>past (_ :: request). if past = ([] :: request list) then Inl TimeoutError else Inr (plain_response 204 [] JNull)"
  have "is_net_error e" if "?srv past rq = Inl e" for past rq e using that by (auto split: if_splits)
  from gen2_light_both [of ?srv, OF this, where w = "\<lparr>hist = []\<rparr>" and token = "''t''" and cam = "''c''" and on = True and intensity = JNull]
  show ?thesis by (simp add: Let_def put_outcome_def plain_response_def ok_status_def)
qed

end
