(* ===== verification/Regex.thy ===== *)
theory Regex
  imports Prelude
begin

section \<open>The regular expressions of the package\<close>

text \<open>
  The package reads its XML, HTTP and RTSP answers with the standard library's \<open>re\<close>. This is a
  backtracking matcher with the constructs its patterns use (classes, sequence, greedy repetition,
  alternatives, groups, negative look-around of one character), so that each pattern of the source
  is transcribed as it is written. A position is the text already passed (reversed), the text that
  remains and the groups set so far; \<open>rx_run\<close> lists the end positions of all matches in the order
  Python's backtracking tries them, so its head is the match \<open>re\<close> returns.
\<close>

datatype 'c rx =
    REps
  | RChr "'c \<Rightarrow> bool"
  | RSeq "'c rx" "'c rx"
  | RAlt "'c rx" "'c rx"
  | RStar "'c rx"
  | RGrp nat "'c rx"
  | RNotAhead "'c \<Rightarrow> bool"
  | RNotBehind "'c \<Rightarrow> bool"

type_synonym 'c groups = "(nat \<times> 'c list) list"
type_synonym 'c pos = "'c list \<times> 'c list \<times> 'c groups"

subsection \<open>Matching\<close>

definition text_left :: "'c pos \<Rightarrow> 'c list" where
  "text_left m = fst (snd m)"

lemma text_left_simp [simp]: "text_left (p, s, g) = s"
  by (simp add: text_left_def)

text \<open>
  Greedy repetition. The fuel is the length of the remaining text: every round must consume a
  character, so it cannot run out (\<open>star_iter_enough\<close>).
\<close>

fun star_iter :: "('c pos \<Rightarrow> 'c pos list) \<Rightarrow> nat \<Rightarrow> 'c pos \<Rightarrow> 'c pos list" where
  "star_iter f 0 m = [m]"
| "star_iter f (Suc n) m =
     concat (map (\<lambda>m'. if length (text_left m') < length (text_left m) then star_iter f n m' else []) (f m)) @ [m]"

primrec rx_run :: "'c rx \<Rightarrow> 'c pos \<Rightarrow> 'c pos list" where
  "rx_run REps m = [m]"
| "rx_run (RChr P) m =
     (case m of (p, [], g) \<Rightarrow> [] | (p, c # s, g) \<Rightarrow> if P c then [(c # p, s, g)] else [])"
| "rx_run (RSeq a b) m = concat (map (rx_run b) (rx_run a m))"
| "rx_run (RAlt a b) m = rx_run a m @ rx_run b m"
| "rx_run (RStar a) m = star_iter (rx_run a) (length (text_left m)) m"
| "rx_run (RGrp n a) m =
     map (\<lambda>(p, s, g). (p, s, (n, take (length (text_left m) - length s) (text_left m)) # g)) (rx_run a m)"
| "rx_run (RNotAhead P) m =
     (case m of (p, [], g) \<Rightarrow> [m] | (p, c # s, g) \<Rightarrow> if P c then [] else [m])"
| "rx_run (RNotBehind P) m =
     (case m of ([], s, g) \<Rightarrow> [m] | (c # p, s, g) \<Rightarrow> if P c then [] else [m])"

subsection \<open>Abbreviated forms\<close>

fun r_lit :: "'c list \<Rightarrow> 'c rx" where
  "r_lit [] = REps"
| "r_lit (c # cs) = RSeq (RChr (\<lambda>x. x = c)) (r_lit cs)"

text \<open>A literal under \<open>re.IGNORECASE\<close>.\<close>

fun r_lit_ic :: "string \<Rightarrow> char rx" where
  "r_lit_ic [] = REps"
| "r_lit_ic (c # cs) = RSeq (RChr (\<lambda>x. to_lower x = to_lower c)) (r_lit_ic cs)"

definition r_plus :: "'c rx \<Rightarrow> 'c rx" where
  "r_plus r = RSeq r (RStar r)"

fun r_upto :: "nat \<Rightarrow> 'c rx \<Rightarrow> 'c rx" where
  "r_upto 0 r = REps"
| "r_upto (Suc n) r = RAlt (RSeq r (r_upto n r)) REps"

subsection \<open>search, fullmatch, finditer, sub\<close>

fun rx_search :: "'c rx \<Rightarrow> 'c list \<Rightarrow> 'c list \<Rightarrow> ('c list \<times> 'c pos) option" where
  "rx_search r p s =
     (case rx_run r (p, s, []) of
        m # _ \<Rightarrow> Some (p, m)
      | [] \<Rightarrow> (case s of [] \<Rightarrow> None | c # cs \<Rightarrow> rx_search r (c # p) cs))"

declare rx_search.simps [simp del]

text \<open>\<open>re.search(r, s)\<close> as a truth value, and \<open>m.group(n)\<close> of its result.\<close>

definition rx_found :: "'c rx \<Rightarrow> 'c list \<Rightarrow> bool" where
  "rx_found r s \<longleftrightarrow> rx_search r [] s \<noteq> None"

definition rx_group :: "'c rx \<Rightarrow> nat \<Rightarrow> 'c list \<Rightarrow> 'c list option" where
  "rx_group r n s = (case rx_search r [] s of None \<Rightarrow> None | Some (_, _, _, g) \<Rightarrow> map_of g n)"

definition rx_fullmatch :: "'c rx \<Rightarrow> 'c list \<Rightarrow> bool" where
  "rx_fullmatch r s \<longleftrightarrow> list_ex (\<lambda>m. text_left m = []) (rx_run r ([], s, []))"

function rx_finditer :: "'c rx \<Rightarrow> 'c list \<Rightarrow> 'c list \<Rightarrow> 'c groups list" where
  "rx_finditer r p s =
     (case rx_search r p s of
        None \<Rightarrow> []
      | Some (_, p', s', g) \<Rightarrow> g # (if length s' < length s then rx_finditer r p' s' else []))"
  by pat_completeness auto
termination
  by (relation "measure (\<lambda>(r, p, s). length s)") auto

declare rx_finditer.simps [simp del]

text \<open>\<open>re.sub(r, new, s)\<close>, where the replacement may refer to the groups of the match.\<close>

function rx_sub :: "'c rx \<Rightarrow> ('c groups \<Rightarrow> 'c list) \<Rightarrow> 'c list \<Rightarrow> 'c list \<Rightarrow> 'c list" where
  "rx_sub r new p s =
     (case rx_search r p s of
        None \<Rightarrow> s
      | Some (q, p', s', g) \<Rightarrow>
          take (length q - length p) s @ new g @ (if length s' < length s then rx_sub r new p' s' else s'))"
  by pat_completeness auto
termination
  by (relation "measure (\<lambda>(r, new, p, s). length s)") auto

declare rx_sub.simps [simp del]

subsection \<open>Every match is a prefix of the remaining text\<close>

definition reaches :: "'c pos \<Rightarrow> 'c pos \<Rightarrow> bool" where
  "reaches m m' \<longleftrightarrow> (\<exists>u. text_left m = u @ text_left m' \<and> fst m' = rev u @ fst m)"

lemma reaches_refl [simp, intro]: "reaches m m"
  by (simp add: reaches_def)

lemma reaches_trans: "reaches m m' \<Longrightarrow> reaches m' m'' \<Longrightarrow> reaches m m''"
  by (force simp: reaches_def)

lemma star_iter_reaches:
  "(\<And>m m'. m' \<in> set (f m) \<Longrightarrow> reaches m m') \<Longrightarrow> m' \<in> set (star_iter f n m) \<Longrightarrow> reaches m m'"
proof (induction n arbitrary: m)
  case 0
  then show ?case by simp
next
  case (Suc n)
  from Suc.prems(2) consider "m' = m" | m1 where "m1 \<in> set (f m)" "m' \<in> set (star_iter f n m1)"
    by (auto split: if_splits)
  then show ?case
  proof cases
    case 1
    then show ?thesis by simp
  next
    case 2
    have "reaches m m1" using Suc.prems(1) 2(1) .
    moreover have "reaches m1 m'" using Suc.IH [OF _ 2(2)] Suc.prems(1) by blast
    ultimately show ?thesis by (rule reaches_trans)
  qed
qed

lemma rx_run_reaches: "m' \<in> set (rx_run r m) \<Longrightarrow> reaches m m'"
proof (induction r arbitrary: m m')
  case (RChr P)
  then show ?case by (auto simp: reaches_def split: prod.splits list.splits if_splits)
next
  case (RSeq a b)
  then obtain m1 where "m1 \<in> set (rx_run a m)" "m' \<in> set (rx_run b m1)" by auto
  then have "reaches m m1" "reaches m1 m'" using RSeq.IH by blast+
  then show ?case by (rule reaches_trans)
next
  case (RStar a)
  have "m' \<in> set (star_iter (rx_run a) (length (text_left m)) m)" using RStar.prems by simp
  then show ?case by (rule star_iter_reaches [rotated]) (rule RStar.IH)
next
  case (RGrp n a)
  then obtain p s g where "(p, s, g) \<in> set (rx_run a m)" and m': "fst m' = p" "text_left m' = s"
    by (auto simp: image_iff)
  then have "reaches m (p, s, g)" by (intro RGrp.IH)
  then show ?case using m' by (simp add: reaches_def)
next
  case (RNotAhead P)
  obtain p s g where "m = (p, s, g)" by (cases m)
  with RNotAhead have "m' = m" by (cases s) (auto split: if_splits)
  then show ?case by simp
next
  case (RNotBehind P)
  obtain p s g where "m = (p, s, g)" by (cases m)
  with RNotBehind have "m' = m" by (cases p) (auto split: if_splits)
  then show ?case by simp
qed auto

lemma rx_run_left_le: "m' \<in> set (rx_run r m) \<Longrightarrow> length (text_left m') \<le> length (text_left m)"
  by (drule rx_run_reaches) (auto simp: reaches_def)

text \<open>The fuel of a repetition is enough: more never changes the result.\<close>

lemma star_iter_enough:
  "length (text_left m) \<le> n \<Longrightarrow> star_iter f n m = star_iter f (length (text_left m)) m"
proof (induction n arbitrary: m rule: less_induct)
  case (less n)
  show ?case
  proof (cases "length (text_left m)")
    case 0
    then have "star_iter f n m = [m]" by (cases n) auto
    with 0 show ?thesis by simp
  next
    case (Suc k)
    with less.prems obtain j where j: "n = Suc j" "k \<le> j" by (cases n) auto
    have "star_iter f j m' = star_iter f k m'" if "length (text_left m') \<le> k" for m'
      using less.IH [of j m'] less.IH [of k m'] that j Suc less.prems
      by (cases "k = j") auto
    then show ?thesis using Suc j
      by (auto intro!: arg_cong [where f = concat])
  qed
qed

lemma rx_run_star:
  "rx_run (RStar a) m =
     concat (map (\<lambda>m'. if length (text_left m') < length (text_left m) then rx_run (RStar a) m' else []) (rx_run a m)) @ [m]"
proof (cases "length (text_left m)")
  case 0
  then show ?thesis by auto
next
  case (Suc n)
  have "star_iter (rx_run a) n m' = rx_run (RStar a) m'" if "length (text_left m') < length (text_left m)" for m'
    using star_iter_enough [of m' n] that Suc by simp
  then show ?thesis using Suc by (auto intro!: arg_cong [where f = concat])
qed

subsection \<open>Closed forms of the constructs the patterns are built from\<close>

lemma rx_run_lit [simp]: "rx_run (r_lit l) (p, l @ s, g) = [(rev l @ p, s, g)]"
  by (induction l arbitrary: p) auto

lemma rx_run_lit_iff:
  "rx_run (r_lit l) (p, s, g) = (if starts_with l s then [(rev l @ p, drop (length l) s, g)] else [])"
proof (induction l arbitrary: p s)
  case Nil
  then show ?case by (simp add: starts_with_def)
next
  case (Cons c l)
  then show ?case by (cases s) (auto simp: starts_with_def)
qed

lemma rx_run_lit_ic [simp]: "rx_run (r_lit_ic l) (p, l @ s, g) = [(rev l @ p, s, g)]"
  by (induction l arbitrary: p) auto

text \<open>A pattern that fails on the first character of the text that remains.\<close>

definition rx_fails :: "'c rx \<Rightarrow> 'c \<Rightarrow> bool" where
  "rx_fails r c \<longleftrightarrow> (\<forall>p s g. rx_run r (p, c # s, g) = [])"

lemma rx_fails_chr [simp]: "rx_fails (RChr P) c \<longleftrightarrow> \<not> P c"
  by (auto simp: rx_fails_def)

lemma rx_fails_seq [simp]: "rx_fails a c \<Longrightarrow> rx_fails (RSeq a b) c"
  by (simp add: rx_fails_def)

lemma rx_fails_lit [simp]: "l \<noteq> [] \<Longrightarrow> c \<noteq> hd l \<Longrightarrow> rx_fails (r_lit l) c"
  by (cases l) auto

lemma rx_fails_lit_ic [simp]: "l \<noteq> [] \<Longrightarrow> to_lower c \<noteq> to_lower (hd l) \<Longrightarrow> rx_fails (r_lit_ic l) c"
  by (cases l) auto

lemma rx_search_skip:
  "\<forall>c \<in> set xs. rx_fails r c \<Longrightarrow> rx_search r p (xs @ ys) = rx_search r (rev xs @ p) ys"
  by (induction xs arbitrary: p) (simp_all add: rx_search.simps rx_fails_def)

lemma rx_search_hit:
  "rx_run r (p, s, []) = m # ms \<Longrightarrow> rx_search r p s = Some (p, m)"
  by (subst rx_search.simps) simp

lemma rx_search_miss:
  "rx_run r (p, c # s, []) = [] \<Longrightarrow> rx_search r p (c # s) = rx_search r (c # p) s"
  by (subst rx_search.simps) simp

lemma rx_search_none_all:
  "\<forall>c \<in> set s. rx_fails r c \<Longrightarrow> (\<And>q. rx_run r (q, [], []) = []) \<Longrightarrow> rx_search r p s = None"
  by (induction s arbitrary: p) (simp_all add: rx_search.simps rx_fails_def)

lemma rx_run_lit_Nil [simp]: "l \<noteq> [] \<Longrightarrow> rx_run (r_lit l) (p, [], g) = []"
  by (cases l) auto

lemma rx_run_lit_ic_Nil [simp]: "l \<noteq> [] \<Longrightarrow> rx_run (r_lit_ic l) (p, [], g) = []"
  by (cases l) auto

text \<open>A greedy run of one class: all the prefixes of the longest run, longest first.\<close>

fun spans :: "('c \<Rightarrow> bool) \<Rightarrow> 'c pos \<Rightarrow> 'c pos list" where
  "spans P (p, [], g) = [(p, [], g)]"
| "spans P (p, c # s, g) = (if P c then spans P (c # p, s, g) @ [(p, c # s, g)] else [(p, c # s, g)])"

lemma rx_run_star_chr: "rx_run (RStar (RChr P)) (p, s, g) = spans P (p, s, g)"
proof (induction s arbitrary: p)
  case Nil
  then show ?case by simp
next
  case (Cons c s)
  then show ?case by (subst rx_run_star) simp
qed

lemma spans_all:
  "\<forall>c \<in> set u. P c \<Longrightarrow> s = [] \<or> \<not> P (hd s) \<Longrightarrow> \<exists>ms. spans P (p, u @ s, g) = (rev u @ p, s, g) # ms"
proof (induction u arbitrary: p)
  case Nil
  then show ?case by (cases s) auto
next
  case (Cons c u)
  then obtain ms where "spans P (c # p, u @ s, g) = (rev u @ c # p, s, g) # ms" by fastforce
  with Cons.prems show ?case by simp
qed

lemma set_spans:
  "m \<in> set (spans P (p, s, g)) \<Longrightarrow> \<exists>u v. s = u @ v \<and> m = (rev u @ p, v, g) \<and> (\<forall>c \<in> set u. P c)"
proof (induction s arbitrary: p)
  case Nil
  then show ?case by simp
next
  case (Cons c s)
  show ?case
  proof (cases "P c \<and> m \<in> set (spans P (c # p, s, g))")
    case True
    with Cons.IH obtain u v where "s = u @ v" "m = (rev u @ c # p, v, g)" "\<forall>x \<in> set u. P x" by blast
    with True show ?thesis by (intro exI [of _ "c # u"] exI [of _ v]) auto
  next
    case False
    with Cons.prems have "m = (p, c # s, g)" by (auto split: if_splits)
    then show ?thesis by (intro exI [of _ "[]"] exI [of _ "c # s"]) simp
  qed
qed

text \<open>
  The shape of most patterns: a group of one or more characters of a class between two literals,
  where the closing literal cannot start inside the group.
\<close>

definition r_field :: "'c rx \<Rightarrow> ('c \<Rightarrow> bool) \<Rightarrow> 'c rx \<Rightarrow> 'c rx" where
  "r_field a P b = RSeq a (RSeq (RGrp 1 (r_plus (RChr P))) b)"

lemma rx_run_plus_chr:
  assumes "\<forall>c \<in> set u. P c" "u \<noteq> []" "s = [] \<or> \<not> P (hd s)"
  shows "\<exists>ms. rx_run (RGrp n (r_plus (RChr P))) (p, u @ s, g) = (rev u @ p, s, (n, u) # g) # ms"
proof -
  from assms(2) obtain c u' where u: "u = c # u'" by (cases u) auto
  have "\<exists>ms. spans P (c # p, u' @ s, g) = (rev u' @ c # p, s, g) # ms"
    using assms u by (intro spans_all) auto
  then show ?thesis using assms(1) u
    by (auto simp: r_plus_def rx_run_star_chr simp del: rx_run.simps(5))
qed

lemma rx_search_field:
  assumes "rx_run a (p, s0, []) = [(q, u @ s, [])]" "\<forall>c \<in> set u. P c" "u \<noteq> []" "s = [] \<or> \<not> P (hd s)"
    and "rx_run b (rev u @ q, s, [(1, u)]) = m # ms"
  shows "rx_search (r_field a P b) p s0 = Some (p, m)"
proof -
  obtain ms' where "rx_run (RGrp 1 (r_plus (RChr P))) (q, u @ s, []) = (rev u @ q, s, [(1, u)]) # ms'"
    using rx_run_plus_chr [OF assms(2,3,4)] by blast
  then show ?thesis using assms(1,5)
    by (intro rx_search_hit [of _ _ _ _ "ms @ concat (map (rx_run b) ms')"]) (simp add: r_field_def del: rx_run.simps(6))
qed

lemma rx_search_SomeD:
  "rx_search r p s = Some (q, m) \<Longrightarrow> \<exists>u s'. s = u @ s' \<and> q = rev u @ p \<and> m \<in> set (rx_run r (q, s', []))"
proof (induction s arbitrary: p)
  case Nil
  then have "q = p \<and> m \<in> set (rx_run r (p, [], []))"
    by (subst (asm) rx_search.simps) (auto split: list.splits)
  then show ?case by auto
next
  case (Cons c s)
  show ?case
  proof (cases "rx_run r (p, c # s, [])")
    case Nil
    with Cons.prems have "rx_search r (c # p) s = Some (q, m)" by (simp add: rx_search_miss)
    from Cons.IH [OF this] obtain u s' where "s = u @ s'" "q = rev u @ c # p" "m \<in> set (rx_run r (q, s', []))"
      by blast
    then show ?thesis by (intro exI [of _ "c # u"] exI [of _ s']) simp
  next
    case (Cons m' ms)
    with Cons.prems have "q = p" "m = m'" by (simp_all add: rx_search_hit)
    with Cons show ?thesis by (intro exI [of _ "[]"] exI [of _ "c # s"]) simp
  qed
qed

text \<open>What a field pattern captures is a non-empty run of its class.\<close>

definition keeps_groups :: "'c rx \<Rightarrow> bool" where
  "keeps_groups r \<longleftrightarrow> (\<forall>m. \<forall>m' \<in> set (rx_run r m). snd (snd m') = snd (snd m))"

lemma keeps_groups_chr [simp]: "keeps_groups REps" "keeps_groups (RChr P)"
  by (auto simp: keeps_groups_def split: list.splits if_splits)

lemma keeps_groups_seq [simp]: "keeps_groups a \<Longrightarrow> keeps_groups b \<Longrightarrow> keeps_groups (RSeq a b)"
  unfolding keeps_groups_def
proof (intro allI ballI)
  fix m m'
  assume a: "\<forall>m. \<forall>m' \<in> set (rx_run a m). snd (snd m') = snd (snd m)"
    and b: "\<forall>m. \<forall>m' \<in> set (rx_run b m). snd (snd m') = snd (snd m)"
  assume "m' \<in> set (rx_run (RSeq a b) m)"
  then obtain m1 where "m1 \<in> set (rx_run a m)" "m' \<in> set (rx_run b m1)" by auto
  with a b have "snd (snd m') = snd (snd m1)" "snd (snd m1) = snd (snd m)" by blast+
  then show "snd (snd m') = snd (snd m)" by simp
qed

lemma keeps_groups_lit [simp]: "keeps_groups (r_lit l)"
  by (induction l) simp_all

lemma keeps_groups_lit_ic [simp]: "keeps_groups (r_lit_ic l)"
  by (induction l) simp_all

lemma set_rx_run_plus_chr:
  assumes "m \<in> set (rx_run (r_plus (RChr P)) (p, s, g))"
  shows "\<exists>u v. s = u @ v \<and> u \<noteq> [] \<and> (\<forall>c \<in> set u. P c) \<and> m = (rev u @ p, v, g)"
proof (cases s)
  case Nil
  with assms show ?thesis by (simp add: r_plus_def)
next
  case (Cons c s')
  with assms have c: "P c" and m: "m \<in> set (spans P (c # p, s', g))"
    by (simp_all add: r_plus_def rx_run_star_chr del: rx_run.simps(5) split: if_splits)
  from set_spans [OF m] obtain u v where "s' = u @ v" "m = (rev u @ c # p, v, g)" "\<forall>x \<in> set u. P x"
    by blast
  with c Cons show ?thesis by (intro exI [of _ "c # u"] exI [of _ v]) simp
qed

lemma rx_run_seqD: "m' \<in> set (rx_run (RSeq a b) m) \<Longrightarrow> \<exists>m1. m1 \<in> set (rx_run a m) \<and> m' \<in> set (rx_run b m1)"
  by auto

lemma rx_run_field_group:
  assumes "m \<in> set (rx_run (r_field a P b) (q, s, []))" "keeps_groups a" "keeps_groups b"
  shows "\<exists>u. snd (snd m) = [(1, u)] \<and> u \<noteq> [] \<and> (\<forall>c \<in> set u. P c)"
proof -
  from assms(1) obtain m1 m2 where m1: "m1 \<in> set (rx_run a (q, s, []))"
    and m2: "m2 \<in> set (rx_run (RGrp 1 (r_plus (RChr P))) m1)" and m: "m \<in> set (rx_run b m2)"
    unfolding r_field_def by (blast dest: rx_run_seqD)
  have "snd (snd m1) = []" using m1 assms(2) unfolding keeps_groups_def by fastforce
  then obtain p1 s1 where m1_eq: "m1 = (p1, s1, [])" by (cases m1) simp
  with m2 obtain m3 where m3: "m3 \<in> set (rx_run (r_plus (RChr P)) (p1, s1, []))"
      and m2_eq: "snd (snd m2) = (1, take (length s1 - length (text_left m3)) s1) # snd (snd m3)"
    unfolding rx_run.simps(6) by auto
  from set_rx_run_plus_chr [OF m3] m2_eq obtain u where
      "snd (snd m2) = [(1, u)]" "u \<noteq> []" "\<forall>c \<in> set u. P c" by auto
  moreover have "snd (snd m) = snd (snd m2)" using m assms(3) unfolding keeps_groups_def by blast
  ultimately show ?thesis by simp
qed

lemma rx_group_field:
  assumes "rx_group (r_field a P b) 1 s = Some u" "keeps_groups a" "keeps_groups b"
  shows "u \<noteq> [] \<and> (\<forall>c \<in> set u. P c)"
proof -
  from assms(1) obtain q m where "rx_search (r_field a P b) [] s = Some (q, m)" "map_of (snd (snd m)) 1 = Some u"
    by (auto simp: rx_group_def split: option.splits)
  moreover from this(1) obtain s' where "m \<in> set (rx_run (r_field a P b) (q, s', []))"
    by (auto dest: rx_search_SomeD)
  ultimately show ?thesis using rx_run_field_group [OF _ assms(2,3)] by fastforce
qed

subsection \<open>The characters a match consumes\<close>

primrec rx_alphabet :: "'c rx \<Rightarrow> 'c \<Rightarrow> bool" where
  "rx_alphabet REps c \<longleftrightarrow> False"
| "rx_alphabet (RChr P) c \<longleftrightarrow> P c"
| "rx_alphabet (RSeq a b) c \<longleftrightarrow> rx_alphabet a c \<or> rx_alphabet b c"
| "rx_alphabet (RAlt a b) c \<longleftrightarrow> rx_alphabet a c \<or> rx_alphabet b c"
| "rx_alphabet (RStar a) c \<longleftrightarrow> rx_alphabet a c"
| "rx_alphabet (RGrp n a) c \<longleftrightarrow> rx_alphabet a c"
| "rx_alphabet (RNotAhead P) c \<longleftrightarrow> False"
| "rx_alphabet (RNotBehind P) c \<longleftrightarrow> False"

definition consumes :: "('c \<Rightarrow> bool) \<Rightarrow> 'c pos \<Rightarrow> 'c pos \<Rightarrow> bool" where
  "consumes P m m' \<longleftrightarrow> (\<exists>u. text_left m = u @ text_left m' \<and> (\<forall>c \<in> set u. P c))"

lemma consumes_refl [simp, intro]: "consumes P m m"
  by (simp add: consumes_def)

lemma consumes_trans: "consumes P m m' \<Longrightarrow> consumes P m' m'' \<Longrightarrow> consumes P m m''"
  by (force simp: consumes_def)

lemma consumes_mono: "consumes P m m' \<Longrightarrow> (\<And>c. P c \<Longrightarrow> Q c) \<Longrightarrow> consumes Q m m'"
  by (auto simp: consumes_def)

lemma star_iter_consumes:
  "(\<And>m m'. m' \<in> set (f m) \<Longrightarrow> consumes P m m') \<Longrightarrow> m' \<in> set (star_iter f n m) \<Longrightarrow> consumes P m m'"
proof (induction n arbitrary: m)
  case (Suc n)
  from Suc.prems(2) consider "m' = m" | m1 where "m1 \<in> set (f m)" "m' \<in> set (star_iter f n m1)"
    by (auto split: if_splits)
  then show ?case
  proof cases
    case 2
    have "consumes P m m1" using Suc.prems(1) 2(1) .
    moreover have "consumes P m1 m'" using Suc.IH [OF _ 2(2)] Suc.prems(1) by blast
    ultimately show ?thesis by (rule consumes_trans)
  qed simp
qed simp

lemma rx_run_consumes: "m' \<in> set (rx_run r m) \<Longrightarrow> consumes (rx_alphabet r) m m'"
proof (induction r arbitrary: m m')
  case (RChr P)
  then show ?case by (auto simp: consumes_def split: prod.splits list.splits if_splits)
next
  case (RSeq a b)
  from rx_run_seqD [OF RSeq.prems] obtain m1 where m1: "m1 \<in> set (rx_run a m)" "m' \<in> set (rx_run b m1)" by blast
  have "consumes (rx_alphabet (RSeq a b)) m m1" using RSeq.IH(1) [OF m1(1)] by (rule consumes_mono) simp
  moreover have "consumes (rx_alphabet (RSeq a b)) m1 m'" using RSeq.IH(2) [OF m1(2)] by (rule consumes_mono) simp
  ultimately show ?case by (rule consumes_trans)
next
  case (RAlt a b)
  then consider "m' \<in> set (rx_run a m)" | "m' \<in> set (rx_run b m)" by auto
  then show ?case
  proof cases
    case 1
    from RAlt.IH(1) [OF this] show ?thesis by (rule consumes_mono) simp
  next
    case 2
    from RAlt.IH(2) [OF this] show ?thesis by (rule consumes_mono) simp
  qed
next
  case (RStar a)
  have "m' \<in> set (star_iter (rx_run a) (length (text_left m)) m)" using RStar.prems by simp
  then have "consumes (rx_alphabet a) m m'" by (rule star_iter_consumes [rotated]) (rule RStar.IH)
  then show ?case by (rule consumes_mono) simp
next
  case (RGrp n a)
  then obtain p s g where "(p, s, g) \<in> set (rx_run a m)" "text_left m' = s"
    by (auto simp: image_iff)
  then have "consumes (rx_alphabet a) m (p, s, g)" "text_left m' = s" using RGrp.IH by blast+
  then show ?case by (simp add: consumes_def)
next
  case (RNotAhead P)
  obtain p s g where "m = (p, s, g)" by (cases m)
  with RNotAhead have "m' = m" by (cases s) (auto split: if_splits)
  then show ?case by simp
next
  case (RNotBehind P)
  obtain p s g where "m = (p, s, g)" by (cases m)
  with RNotBehind have "m' = m" by (cases p) (auto split: if_splits)
  then show ?case by simp
qed auto

lemma rx_fullmatch_alphabet:
  assumes "rx_fullmatch r s" "c \<in> set s"
  shows "rx_alphabet r c"
proof -
  from assms(1) obtain m where "m \<in> set (rx_run r ([], s, []))" "text_left m = []"
    by (auto simp: rx_fullmatch_def list_ex_iff)
  with rx_run_consumes [of m r "([], s, [])"] assms(2) show ?thesis by (auto simp: consumes_def)
qed

lemma rx_alphabet_upto [simp]: "rx_alphabet (r_upto n r) c \<Longrightarrow> rx_alphabet r c"
  by (induction n) auto

lemma rx_fullmatch_plus_chr [simp]: "rx_fullmatch (r_plus (RChr P)) s \<longleftrightarrow> s \<noteq> [] \<and> (\<forall>c \<in> set s. P c)"
proof
  assume fm: "rx_fullmatch (r_plus (RChr P)) s"
  then have "s \<noteq> []" by (auto simp: rx_fullmatch_def r_plus_def)
  then show "s \<noteq> [] \<and> (\<forall>c \<in> set s. P c)"
    using rx_fullmatch_alphabet [OF fm] by (auto simp: r_plus_def)
next
  assume s: "s \<noteq> [] \<and> (\<forall>c \<in> set s. P c)"
  then obtain ms where "rx_run (RGrp 0 (r_plus (RChr P))) ([], s @ [], []) = (rev s @ [], [], [(0, s)]) # ms"
    using rx_run_plus_chr [of s P "[]" 0 "[]" "[]"] by auto
  then show "rx_fullmatch (r_plus (RChr P)) s"
    by (auto simp: rx_fullmatch_def list_ex_iff map_eq_Cons_conv)
qed

subsection \<open>Substitution\<close>

lemma rx_search_splits:
  assumes "rx_search r p s = Some (q, p', s', g)"
  shows "\<exists>u v. s = u @ v @ s' \<and> q = rev u @ p \<and> p' = rev v @ q"
proof -
  from rx_search_SomeD [OF assms] obtain u t where u: "s = u @ t" "q = rev u @ p"
    and m: "(p', s', g) \<in> set (rx_run r (q, t, []))" by blast
  from rx_run_reaches [OF m] obtain v where "t = v @ s'" "p' = rev v @ q" by (auto simp: reaches_def)
  with u show ?thesis by blast
qed

lemma rx_sub_none: "rx_search r p s = None \<Longrightarrow> rx_sub r new p s = s"
  by (subst rx_sub.simps) simp

lemma rx_sub_hit:
  assumes "rx_search r p (u @ v @ s') = Some (rev u @ p, rev v @ rev u @ p, s', g)"
  shows "rx_sub r new p (u @ v @ s') = u @ new g @ (if u @ v = [] then s' else rx_sub r new (rev v @ rev u @ p) s')"
  by (subst rx_sub.simps) (simp add: assms)

text \<open>What holds of every character of the text and of the replacements holds of the result.\<close>

lemma rx_sub_list_all:
  assumes "list_all P s" "\<And>g. list_all P (new g)"
  shows "list_all P (rx_sub r new p s)"
  using assms(1)
proof (induction s arbitrary: p rule: length_induct)
  case (1 s)
  show ?case
  proof (cases "rx_search r p s")
    case None
    with 1 show ?thesis by (simp add: rx_sub_none)
  next
    case (Some x)
    obtain q p' s' g where x: "x = (q, p', s', g)" by (cases x) auto
    from rx_search_splits [OF Some [unfolded x]] obtain u v where
      uv: "s = u @ v @ s'" "q = rev u @ p" "p' = rev v @ q" by blast
    have rest: "list_all P (if u @ v = [] then s' else rx_sub r new (rev v @ rev u @ p) s')"
      using 1 uv by auto
    have "rx_sub r new p s = u @ new g @ (if u @ v = [] then s' else rx_sub r new (rev v @ rev u @ p) s')"
      unfolding uv(1) by (rule rx_sub_hit) (use Some x uv in simp)
    with rest assms(2) 1(2) uv(1) show ?thesis by simp
  qed
qed

text \<open>
  Skipping over text in which the first literal of a pattern does not occur, up to an occurrence of
  it; its first character must not occur in it again, so that none can straddle the border.
\<close>

lemma contains_append: "starts_with l (b @ c) \<Longrightarrow> length l \<le> length b \<Longrightarrow> contains l (a @ b)"
proof (induction a)
  case Nil
  then have "starts_with l b" by (simp add: starts_with_def)
  then show ?case by (cases b) (auto simp: starts_with_def)
qed auto

lemma rx_search_skip_lit:
  assumes "\<not> contains (c # l) xs" "c \<notin> set l"
  shows "rx_search (RSeq (r_lit (c # l)) r) p (xs @ (c # l) @ ys) =
    rx_search (RSeq (r_lit (c # l)) r) (rev xs @ p) ((c # l) @ ys)"
  using assms(1)
proof (induction xs arbitrary: p)
  case (Cons x xs)
  have "\<not> starts_with (c # l) ((x # xs) @ (c # l) @ ys)"
  proof
    assume s: "starts_with (c # l) ((x # xs) @ (c # l) @ ys)"
    show False
    proof (cases "length (c # l) \<le> length (x # xs)")
      case True
      from contains_append [OF s True, of "[]"] Cons.prems show ?thesis by simp
    next
      case False
      then have n: "length (x # xs) < length (c # l)" by simp
      from s have "take (length (c # l)) ((x # xs) @ (c # l) @ ys) ! length (x # xs) = (c # l) ! length (x # xs)"
        by (simp add: starts_with_def)
      with n have "c = l ! length xs" by (simp add: nth_append)
      with n assms(2) show ?thesis by auto
    qed
  qed
  then have "rx_run (RSeq (r_lit (c # l)) r) (p, x # xs @ (c # l) @ ys, []) = []"
    by (simp add: rx_run_lit_iff del: r_lit.simps)
  then have "rx_search (RSeq (r_lit (c # l)) r) p (x # xs @ (c # l) @ ys) =
      rx_search (RSeq (r_lit (c # l)) r) (x # p) (xs @ (c # l) @ ys)" by (rule rx_search_miss)
  with Cons show ?case by simp
qed simp

lemma rx_search_no_lit:
  assumes "\<not> contains l xs" "l \<noteq> []"
  shows "rx_search (RSeq (r_lit l) r) p xs = None"
  using assms(1)
proof (induction xs arbitrary: p)
  case Nil
  then show ?case using assms(2) by (subst rx_search.simps) simp
next
  case (Cons x xs)
  then have "rx_run (RSeq (r_lit l) r) (p, x # xs, []) = []" by (simp add: rx_run_lit_iff)
  with Cons show ?case by (simp add: rx_search_miss)
qed

text \<open>The first result of a sequence, from the first results of its parts.\<close>

lemma rx_run_seq_first:
  "\<exists>ms. rx_run a m = m1 # ms \<Longrightarrow> \<exists>ms. rx_run b m1 = m2 # ms \<Longrightarrow> \<exists>ms. rx_run (RSeq a b) m = m2 # ms"
  by auto

lemma rx_run_lit_first:
  "\<exists>ms. rx_run b (rev l @ p, s, g) = m # ms \<Longrightarrow> \<exists>ms. rx_run (RSeq (r_lit l) b) (p, l @ s, g) = m # ms"
  by simp

lemma rx_run_star_first:
  assumes "\<forall>c \<in> set u. P c" "s = [] \<or> \<not> P (hd s)"
  shows "\<exists>ms. rx_run (RStar (RChr P)) (p, u @ s, g) = (rev u @ p, s, g) # ms"
  unfolding rx_run_star_chr by (rule spans_all [OF assms])

lemma rx_run_plus_first:
  assumes "\<forall>c \<in> set u. P c" "u \<noteq> []" "s = [] \<or> \<not> P (hd s)"
  shows "\<exists>ms. rx_run (r_plus (RChr P)) (p, u @ s, g) = (rev u @ p, s, g) # ms"
proof -
  from assms(2) obtain c u' where u: "u = c # u'" by (cases u) auto
  have "\<exists>ms. spans P (c # p, u' @ s, g) = (rev u' @ c # p, s, g) # ms"
    using assms u by (intro spans_all) auto
  then show ?thesis using assms(1) u
    by (auto simp: r_plus_def rx_run_star_chr simp del: rx_run.simps(5))
qed

end
