(* ===== verification/Settings.thy ===== *)
theory Settings
  imports Cloud Regex
begin

section \<open>Camera settings: validated reads and read-modify-write updates\<close>

text \<open>
  \<open>settings.py\<close>: the value readers, the checked endpoint names, the GET of an object or a list of
  regions, the classified write \<open>send_setting\<close> (\<open>_send\<close>), the GET-change-PUT update \<open>merge_put\<close>
  and every getter and setter built on them. Values a caller passes with a dynamic type are JSON
  values here, so the type checks of the code are branches.
\<close>

subsection \<open>Value readers\<close>

definition number_of_json :: "json \<Rightarrow> rat option" where
  "number_of_json j =
     (case j of
        JInt n \<Rightarrow> (case float_of_int n of Inr (Fin q) \<Rightarrow> Some q | _ \<Rightarrow> None)
      | JFloat (Fin q) \<Rightarrow> Some q
      | _ \<Rightarrow> None)"

definition integer_of_json :: "json \<Rightarrow> int option" where
  "integer_of_json j = map_option round_half_even (number_of_json j)"

definition text_of_json :: "json \<Rightarrow> string option" where
  "text_of_json j = (case j of JStr s \<Rightarrow> if py_strip s = [] then None else Some (upper (py_strip s)) | _ \<Rightarrow> None)"

datatype ScheduleStatus = FOLLOW_SCHEDULE | AMBIENT_LIGHT | AMBIENT_LIGHT_AND_SCHEDULE | ALWAYS_OFF

datatype DetectionMode = ALL_MOTIONS | ONLY_HUMANS | ZONES

definition schedule_values :: "(string, ScheduleStatus) dict" where
  "schedule_values = [(''FOLLOW_SCHEDULE'', FOLLOW_SCHEDULE), (''AMBIENT_LIGHT'', AMBIENT_LIGHT),
     (''AMBIENT_LIGHT_AND_SCHEDULE'', AMBIENT_LIGHT_AND_SCHEDULE), (''ALWAYS_OFF'', ALWAYS_OFF)]"

definition detection_values :: "(string, DetectionMode) dict" where
  "detection_values = [(''ALL_MOTIONS'', ALL_MOTIONS), (''ONLY_HUMANS'', ONLY_HUMANS), (''ZONES'', ZONES)]"

fun schedule_value :: "ScheduleStatus \<Rightarrow> string" where
  "schedule_value FOLLOW_SCHEDULE = ''FOLLOW_SCHEDULE''"
| "schedule_value AMBIENT_LIGHT = ''AMBIENT_LIGHT''"
| "schedule_value AMBIENT_LIGHT_AND_SCHEDULE = ''AMBIENT_LIGHT_AND_SCHEDULE''"
| "schedule_value ALWAYS_OFF = ''ALWAYS_OFF''"

text \<open>\<open>_enum(kind, value)\<close>: \<open>kind\<close> is the table of its values.\<close>

definition enum_of_json :: "(string, 'e) dict \<Rightarrow> json \<Rightarrow> 'e option" where
  "enum_of_json kind j = (case text_of_json j of None \<Rightarrow> None | Some t \<Rightarrow> dict_get kind t)"

subsection \<open>Results\<close>

record SettingWriteResult =
  sw_status :: int
  sw_response :: "obj option"
  sw_sent :: "json option"

record RawResponse =
  raw_status :: int
  raw_body :: json

record LightingOverride =
  lo_front_light_on :: bool
  lo_wallwasher_on :: bool
  lo_front_light_intensity :: "rat option"

record LightingOptions =
  lp_schedule_status :: "ScheduleStatus option"
  lp_raw :: obj

record MotionLighting =
  ml_sensitivity :: "int option"
  ml_raw :: obj

record AmbientLighting =
  al_enabled :: "bool option"
  al_schedule_type :: "string option"
  al_raw :: obj

record AudioSettings =
  au_audio_enabled :: "bool option"
  au_microphone_level :: "int option"
  au_speaker_level :: "int option"
  au_raw :: obj

record IntrusionDetectionConfig =
  idc_detection_mode :: "DetectionMode option"
  idc_sensitivity :: "int option"
  idc_distance :: "int option"
  idc_raw :: obj

record AlarmStatus =
  as_alarm_type :: "string option"
  as_intrusion_system :: "string option"

record Region =
  reg_x :: pyfloat
  reg_y :: pyfloat
  reg_w :: pyfloat
  reg_h :: pyfloat

subsection \<open>Reading\<close>

definition PRIVACY_STATUS :: int where
  "PRIVACY_STATUS = 443"

definition fetch_setting :: "server \<Rightarrow> string \<Rightarrow> string \<Rightarrow> string \<Rightarrow> ('z net_scheme, json) io" where
  "fetch_setting srv token url what =
     catch_io (fetch_json srv token url what)
       (\<lambda>e. case e of
          BoschCameraConnectionError i \<Rightarrow>
            if ei_status i \<noteq> Some PRIVACY_STATUS then raise e
            else raise (BoschCameraPrivacyModeError
              \<lparr>ei_msg = what @ '' blocked by privacy mode'', ei_status = ei_status i, ei_body = ei_body i\<rparr>)
        | _ \<Rightarrow> raise e)"

definition get_object :: "server \<Rightarrow> string \<Rightarrow> string \<Rightarrow> string \<Rightarrow> string \<Rightarrow> ('z net_scheme, obj) io" where
  "get_object srv token cam endpoint api_url =
     bind_io (fetch_setting srv token (video_input_url api_url cam endpoint) endpoint) (\<lambda>payload.
       case as_obj payload of
         None \<Rightarrow> raise (invalid (endpoint @ '' is not an object''))
       | Some d \<Rightarrow> ret d)"

definition region_of_json :: "string \<Rightarrow> json \<Rightarrow> exn + Region" where
  "region_of_json endpoint item =
     (case item of
        JObj d \<Rightarrow>
          (case (number_of_json (get d ''x''), number_of_json (get d ''y''),
                 number_of_json (get d ''w''), number_of_json (get d ''h'')) of
             (Some x, Some y, Some w, Some h) \<Rightarrow> Inr \<lparr>reg_x = Fin x, reg_y = Fin y, reg_w = Fin w, reg_h = Fin h\<rparr>
           | _ \<Rightarrow> Inl (invalid (endpoint @ '' entry is malformed'')))
      | _ \<Rightarrow> Inl (invalid (endpoint @ '' entry is malformed'')))"

definition get_regions :: "server \<Rightarrow> string \<Rightarrow> string \<Rightarrow> string \<Rightarrow> string \<Rightarrow> ('z net_scheme, Region list) io" where
  "get_regions srv token cam endpoint api_url =
     bind_io (fetch_setting srv token (video_input_url api_url cam endpoint) endpoint) (\<lambda>payload.
       case as_list payload of
         None \<Rightarrow> raise (invalid (endpoint @ '' is not an array''))
       | Some items \<Rightarrow> lift (map_exn (region_of_json endpoint) items))"

subsection \<open>Writing\<close>

definition setting_request :: "string \<Rightarrow> string \<Rightarrow> string \<Rightarrow> json option \<Rightarrow> request" where
  "setting_request token method url body =
     mk_request method url []
       [(''Accept'', ''application/json''), (''Content-Type'', ''application/json''), (''Authorization'', bearer token)]
       (case body of None \<Rightarrow> EmptyBody | Some j \<Rightarrow> JsonBody j)"

text \<open>The classification of an answer; only network faults of the request are converted by the handler around it.\<close>

definition classify_write :: "string \<Rightarrow> bool \<Rightarrow> json option \<Rightarrow> response \<Rightarrow> exn + SettingWriteResult" where
  "classify_write what error_detail body resp =
     (let s = rs_status resp; detail = read_error_body resp in
      if \<not> ok_status s then
        (if rejected s then Inl (BoschCameraAuthError (http_info (''Token rejected (HTTP '' @ int_str s @ '')'') s detail))
         else if s = PRIVACY_STATUS then
           Inl (BoschCameraPrivacyModeError (http_info (what @ '' blocked by privacy mode'') s detail))
         else
           let message = what @ '' returned HTTP '' @ int_str s in
           Inl (BoschCameraConnectionError (http_info
             (if error_detail then message @ '': '' @ (case detail of None \<Rightarrow> [] | Some t \<Rightarrow> t) else message) s detail)))
      else
        (case rs_json resp of
           Inl e \<Rightarrow> if is_value_error e then Inr \<lparr>sw_status = s, sw_response = None, sw_sent = body\<rparr> else Inl e
         | Inr parsed \<Rightarrow> Inr \<lparr>sw_status = s, sw_response = as_obj parsed, sw_sent = body\<rparr>))"

definition send_setting ::
    "server \<Rightarrow> string \<Rightarrow> string \<Rightarrow> string \<Rightarrow> json option \<Rightarrow> string \<Rightarrow> bool \<Rightarrow> ('z net_scheme, SettingWriteResult) io" where
  "send_setting srv token method url body what error_detail =
     catch_io
       (bind_io (send srv (setting_request token method url body)) (\<lambda>resp. lift (classify_write what error_detail body resp)))
       net_reraise"

definition has_nonfinite :: "obj \<Rightarrow> bool" where
  "has_nonfinite d \<longleftrightarrow> list_ex (\<lambda>(k, v). case v of JFloat x \<Rightarrow> \<not> is_finite x | _ \<Rightarrow> False) d"

definition merge_put :: "server \<Rightarrow> string \<Rightarrow> string \<Rightarrow> string \<Rightarrow> obj \<Rightarrow> string \<Rightarrow> ('z net_scheme, SettingWriteResult) io" where
  "merge_put srv token cam endpoint changes api_url =
     (if has_nonfinite changes then raise (ValueError ''changes must not contain NaN or infinity'')
      else bind_io (get_object srv token cam endpoint api_url) (\<lambda>current.
        if current = [] then raise (invalid (endpoint @ '' is empty''))
        else send_setting srv token ''PUT'' (video_input_url api_url cam endpoint)
               (Some (JObj (dict_merge current changes))) endpoint False))"

subsection \<open>Checked endpoint names and the raw helpers\<close>

definition CAMERA_ID_PATTERN :: "char rx" where
  "CAMERA_ID_PATTERN = r_plus (RChr (\<lambda>c. is_alpha c \<or> is_digit c \<or> c = CHR ''_'' \<or> c = CHR ''-''))"

definition ENDPOINT_PATTERN :: "char rx" where
  "ENDPOINT_PATTERN =
     (let name = r_plus (RChr (\<lambda>c. is_alpha c \<or> c = CHR ''_'')) in
      RSeq name (r_upto 2 (RSeq (RChr (\<lambda>c. c = CHR ''/'')) name)))"

definition check_endpoint :: "string \<Rightarrow> string \<Rightarrow> exn + unit" where
  "check_endpoint endpoint cam =
     (if \<not> rx_fullmatch CAMERA_ID_PATTERN cam then Inl (ValueError ''invalid camera id'')
      else if \<not> rx_fullmatch ENDPOINT_PATTERN endpoint then Inl (ValueError (''unknown settings endpoint: '' @ endpoint))
      else Inr ())"

definition get_setting_raw :: "server \<Rightarrow> string \<Rightarrow> string \<Rightarrow> string \<Rightarrow> string \<Rightarrow> ('z net_scheme, RawResponse) io" where
  "get_setting_raw srv token cam endpoint api_url =
     bind_io (lift (check_endpoint endpoint cam)) (\<lambda>_.
       catch_io
         (bind_io (send srv (get_request token (video_input_url api_url cam endpoint))) (\<lambda>resp.
            if rs_status resp \<noteq> 200 then ret \<lparr>raw_status = rs_status resp, raw_body = JNull\<rparr>
            else (case rs_json resp of
                Inr j \<Rightarrow> ret \<lparr>raw_status = 200, raw_body = j\<rparr>
              | Inl e \<Rightarrow> if is_value_error e then ret \<lparr>raw_status = 200, raw_body = JNull\<rparr> else raise e)))
         (\<lambda>e. if is_net_error e then ret \<lparr>raw_status = 0, raw_body = JNull\<rparr> else raise e))"

definition put_setting ::
    "server \<Rightarrow> string \<Rightarrow> string \<Rightarrow> string \<Rightarrow> json option \<Rightarrow> string \<Rightarrow> string \<Rightarrow> ('z net_scheme, SettingWriteResult) io" where
  "put_setting srv token cam endpoint body method api_url =
     bind_io (lift (check_endpoint endpoint cam)) (\<lambda>_.
       if method \<noteq> ''PUT'' \<and> method \<noteq> ''POST'' then raise (ValueError ''method must be PUT or POST'')
       else send_setting srv token method (video_input_url api_url cam endpoint) body endpoint True)"

subsection \<open>Range checks\<close>

definition check_range :: "string \<Rightarrow> json \<Rightarrow> int \<times> int \<Rightarrow> exn + unit" where
  "check_range name value bounds =
     (let bad = Inl (ValueError (name @ '' must be between '' @ int_str (fst bounds) @ '' and '' @ int_str (snd bounds))) in
      case value of JInt n \<Rightarrow> if fst bounds \<le> n \<and> n \<le> snd bounds then Inr () else bad | _ \<Rightarrow> bad)"

definition unit_interval :: "pyfloat \<Rightarrow> bool" where
  "unit_interval x \<longleftrightarrow> (case x of Fin q \<Rightarrow> 0 \<le> q \<and> q \<le> 1 | _ \<Rightarrow> False)"

definition region_body :: "Region \<Rightarrow> json" where
  "region_body r = JObj [(''x'', JFloat (reg_x r)), (''y'', JFloat (reg_y r)), (''w'', JFloat (reg_w r)), (''h'', JFloat (reg_h r))]"

definition check_region :: "Region \<Rightarrow> exn + json" where
  "check_region r =
     (if unit_interval (reg_x r) \<and> unit_interval (reg_y r) \<and> unit_interval (reg_w r) \<and> unit_interval (reg_h r)
      then Inr (region_body r) else Inl (ValueError ''region values must be between 0.0 and 1.0''))"

definition check_regions :: "Region list \<Rightarrow> exn + json" where
  "check_regions regions = (case map_exn check_region regions of Inl e \<Rightarrow> Inl e | Inr js \<Rightarrow> Inr (JArr js))"

definition MOTION_LIGHT_SENSITIVITY_RANGE :: "int \<times> int" where
  "MOTION_LIGHT_SENSITIVITY_RANGE = (1, 5)"

definition LEVEL_RANGE :: "int \<times> int" where
  "LEVEL_RANGE = (0, 100)"

end
