(* ===== verification/SettingsOps.thy ===== *)
theory SettingsOps
  imports Settings
begin

section \<open>The settings endpoints\<close>

text \<open>
  The getters and setters of \<open>settings.py\<close>, the runs of the shared operations they are built on,
  and the lemmas about them: what a write sends, that a rejected argument sends nothing, and that
  a read-modify-write keeps every key it does not change.
\<close>

subsection \<open>Lighting\<close>

definition get_lighting_override :: "server \<Rightarrow> string \<Rightarrow> string \<Rightarrow> string \<Rightarrow> ('z net_scheme, LightingOverride) io" where
  "get_lighting_override srv token cam api_url =
     bind_io (get_object srv token cam ''lighting_override'' api_url) (\<lambda>data.
       case (as_bool (get data ''frontLightOn''), as_bool (get data ''wallwasherOn'')) of
         (Some front, Some wall) \<Rightarrow>
           ret \<lparr>lo_front_light_on = front, lo_wallwasher_on = wall,
                lo_front_light_intensity = number_of_json (get data ''frontLightIntensity'')\<rparr>
       | _ \<Rightarrow> raise (invalid ''lighting_override has no light state''))"

definition override_body :: "bool \<Rightarrow> bool \<Rightarrow> pyfloat option \<Rightarrow> exn + json" where
  "override_body front_light_on wallwasher_on front_light_intensity =
     (let body = [(''frontLightOn'', JBool front_light_on), (''wallwasherOn'', JBool wallwasher_on)] in
      case front_light_intensity of
        Some x \<Rightarrow>
          if \<not> front_light_on then Inr (JObj body)
          else if \<not> unit_interval x then Inl (ValueError ''front_light_intensity must be between 0.0 and 1.0'')
          else Inr (JObj (dict_set ''frontLightIntensity'' (JFloat x) body))
      | None \<Rightarrow> Inr (JObj body))"

definition set_lighting_override ::
    "server \<Rightarrow> string \<Rightarrow> string \<Rightarrow> bool \<Rightarrow> bool \<Rightarrow> pyfloat option \<Rightarrow> string \<Rightarrow> ('z net_scheme, SettingWriteResult) io" where
  "set_lighting_override srv token cam front_light_on wallwasher_on front_light_intensity api_url =
     bind_io (lift (override_body front_light_on wallwasher_on front_light_intensity)) (\<lambda>body.
       send_setting srv token ''PUT'' (video_input_url api_url cam ''lighting_override'') (Some body) ''lighting_override'' False)"

definition get_lighting_options :: "server \<Rightarrow> string \<Rightarrow> string \<Rightarrow> string \<Rightarrow> ('z net_scheme, LightingOptions) io" where
  "get_lighting_options srv token cam api_url =
     bind_io (get_object srv token cam ''lighting_options'' api_url) (\<lambda>data.
       ret \<lparr>lp_schedule_status = enum_of_json schedule_values (get data ''scheduleStatus''), lp_raw = data\<rparr>)"

definition set_schedule_status ::
    "server \<Rightarrow> string \<Rightarrow> string \<Rightarrow> ScheduleStatus \<Rightarrow> string \<Rightarrow> ('z net_scheme, SettingWriteResult) io" where
  "set_schedule_status srv token cam status api_url =
     merge_put srv token cam ''lighting_options'' [(''scheduleStatus'', JStr (schedule_value status))] api_url"

definition get_motion_lighting :: "server \<Rightarrow> string \<Rightarrow> string \<Rightarrow> string \<Rightarrow> ('z net_scheme, MotionLighting) io" where
  "get_motion_lighting srv token cam api_url =
     bind_io (get_object srv token cam ''lighting/motion'' api_url) (\<lambda>data.
       ret \<lparr>ml_sensitivity = integer_of_json (get data ''motionLightSensitivity''), ml_raw = data\<rparr>)"

definition set_motion_light_sensitivity ::
    "server \<Rightarrow> string \<Rightarrow> string \<Rightarrow> json \<Rightarrow> string \<Rightarrow> ('z net_scheme, SettingWriteResult) io" where
  "set_motion_light_sensitivity srv token cam sensitivity api_url =
     bind_io (lift (check_range ''sensitivity'' sensitivity MOTION_LIGHT_SENSITIVITY_RANGE)) (\<lambda>_.
       merge_put srv token cam ''lighting/motion'' [(''motionLightSensitivity'', sensitivity)] api_url)"

definition get_ambient_lighting :: "server \<Rightarrow> string \<Rightarrow> string \<Rightarrow> string \<Rightarrow> ('z net_scheme, AmbientLighting) io" where
  "get_ambient_lighting srv token cam api_url =
     bind_io (get_object srv token cam ''lighting/ambient'' api_url) (\<lambda>data.
       let schedule = get data ''ambientLightSchedule'';
           kind = (case schedule of JObj d \<Rightarrow> get d ''type'' | j \<Rightarrow> j) in
       ret \<lparr>al_enabled = as_bool (get data ''ambientLightEnabled''), al_schedule_type = text_of_json kind, al_raw = data\<rparr>)"

subsection \<open>Audio and sensors\<close>

definition get_audio_settings :: "server \<Rightarrow> string \<Rightarrow> string \<Rightarrow> string \<Rightarrow> ('z net_scheme, AudioSettings) io" where
  "get_audio_settings srv token cam api_url =
     bind_io (get_object srv token cam ''audio'' api_url) (\<lambda>data.
       ret \<lparr>au_audio_enabled = as_bool (get data ''audioEnabled''),
            au_microphone_level = integer_of_json (get data ''microphoneLevel''),
            au_speaker_level = integer_of_json (get data ''speakerLevel''), au_raw = data\<rparr>)"

text \<open>\<open>None\<close> is an argument that is not given.\<close>

definition audio_changes :: "json option \<Rightarrow> json option \<Rightarrow> json option \<Rightarrow> exn + obj" where
  "audio_changes audio_enabled microphone_level speaker_level =
     (let add = (\<lambda>key level changes.
            case level of
              None \<Rightarrow> Inr changes
            | Some v \<Rightarrow>
                (case check_range key v LEVEL_RANGE of Inl e \<Rightarrow> Inl e | Inr _ \<Rightarrow> Inr (dict_set key v changes)));
          start = (case audio_enabled of None \<Rightarrow> [] | Some b \<Rightarrow> [(''audioEnabled'', b)]) in
      case add ''microphoneLevel'' microphone_level start of
        Inl e \<Rightarrow> Inl e
      | Inr changes \<Rightarrow> add ''speakerLevel'' speaker_level changes)"

definition set_audio_settings ::
    "server \<Rightarrow> string \<Rightarrow> string \<Rightarrow> json option \<Rightarrow> json option \<Rightarrow> json option \<Rightarrow> string \<Rightarrow> ('z net_scheme, SettingWriteResult) io" where
  "set_audio_settings srv token cam audio_enabled microphone_level speaker_level api_url =
     bind_io (lift (audio_changes audio_enabled microphone_level speaker_level)) (\<lambda>changes.
       merge_put srv token cam ''audio'' changes api_url)"

definition get_ambient_light_sensor_level :: "server \<Rightarrow> string \<Rightarrow> string \<Rightarrow> string \<Rightarrow> ('z net_scheme, rat option) io" where
  "get_ambient_light_sensor_level srv token cam api_url =
     bind_io (get_object srv token cam ''ambient_light_sensor_level'' api_url) (\<lambda>data.
       ret (number_of_json (get data ''ambientLightSensorLevel'')))"

definition get_lens_elevation :: "server \<Rightarrow> string \<Rightarrow> string \<Rightarrow> string \<Rightarrow> ('z net_scheme, rat option) io" where
  "get_lens_elevation srv token cam api_url =
     bind_io (get_object srv token cam ''lens_elevation'' api_url) (\<lambda>data. ret (number_of_json (get data ''elevation'')))"

text \<open>\<open>round(elevation, 2)\<close>: the number itself for an integer.\<close>

definition elevation_body :: "json \<Rightarrow> exn + json" where
  "elevation_body elevation =
     (let bad = ValueError ''elevation must be finite'' in
      case elevation of
        JInt n \<Rightarrow> (case float_of_int n of Inl e \<Rightarrow> Inl e | Inr _ \<Rightarrow> Inr (JInt n))
      | JBool b \<Rightarrow> Inr (JInt (if b then 1 else 0))
      | JFloat (Fin q) \<Rightarrow> (case round_places 2 q of Inl e \<Rightarrow> Inl e | Inr x \<Rightarrow> Inr (JFloat x))
      | JFloat _ \<Rightarrow> Inl bad
      | _ \<Rightarrow> Inl TypeError)"

definition set_lens_elevation ::
    "server \<Rightarrow> string \<Rightarrow> string \<Rightarrow> json \<Rightarrow> string \<Rightarrow> ('z net_scheme, SettingWriteResult) io" where
  "set_lens_elevation srv token cam elevation api_url =
     bind_io (lift (elevation_body elevation)) (\<lambda>e.
       send_setting srv token ''PUT'' (video_input_url api_url cam ''lens_elevation'') (Some (JObj [(''elevation'', e)]))
         ''lens_elevation'' False)"

subsection \<open>Intrusion detection, alarm, regions\<close>

definition get_intrusion_detection_config ::
    "server \<Rightarrow> string \<Rightarrow> string \<Rightarrow> string \<Rightarrow> ('z net_scheme, IntrusionDetectionConfig) io" where
  "get_intrusion_detection_config srv token cam api_url =
     bind_io (get_object srv token cam ''intrusionDetectionConfig'' api_url) (\<lambda>data.
       ret \<lparr>idc_detection_mode = enum_of_json detection_values (get data ''detectionMode''),
            idc_sensitivity = integer_of_json (get data ''sensitivity''),
            idc_distance = integer_of_json (get data ''distance''), idc_raw = data\<rparr>)"

definition set_intrusion_detection_config ::
    "server \<Rightarrow> string \<Rightarrow> string \<Rightarrow> obj \<Rightarrow> string \<Rightarrow> ('z net_scheme, SettingWriteResult) io" where
  "set_intrusion_detection_config srv token cam changes api_url =
     (if changes = [] then raise (ValueError ''changes must not be empty'')
      else merge_put srv token cam ''intrusionDetectionConfig'' changes api_url)"

definition get_alarm_status :: "server \<Rightarrow> string \<Rightarrow> string \<Rightarrow> string \<Rightarrow> ('z net_scheme, AlarmStatus) io" where
  "get_alarm_status srv token cam api_url =
     bind_io (get_object srv token cam ''alarmStatus'' api_url) (\<lambda>data.
       ret \<lparr>as_alarm_type = text_of_json (get data ''alarmType''),
            as_intrusion_system = text_of_json (get data ''intrusionSystem'')\<rparr>)"

definition get_motion_zones :: "server \<Rightarrow> string \<Rightarrow> string \<Rightarrow> string \<Rightarrow> ('z net_scheme, Region list) io" where
  "get_motion_zones srv token cam api_url = get_regions srv token cam ''motion_sensitive_areas'' api_url"

definition set_regions ::
    "server \<Rightarrow> string \<Rightarrow> string \<Rightarrow> string \<Rightarrow> Region list \<Rightarrow> string \<Rightarrow> ('z net_scheme, SettingWriteResult) io" where
  "set_regions srv token cam endpoint regions api_url =
     bind_io (lift (check_regions regions)) (\<lambda>body.
       send_setting srv token ''POST'' (video_input_url api_url cam endpoint) (Some body) endpoint False)"

definition set_motion_zones ::
    "server \<Rightarrow> string \<Rightarrow> string \<Rightarrow> Region list \<Rightarrow> string \<Rightarrow> ('z net_scheme, SettingWriteResult) io" where
  "set_motion_zones srv token cam zones api_url = set_regions srv token cam ''motion_sensitive_areas'' zones api_url"

definition get_privacy_masks :: "server \<Rightarrow> string \<Rightarrow> string \<Rightarrow> string \<Rightarrow> ('z net_scheme, Region list) io" where
  "get_privacy_masks srv token cam api_url = get_regions srv token cam ''privacy_masks'' api_url"

definition set_privacy_masks ::
    "server \<Rightarrow> string \<Rightarrow> string \<Rightarrow> Region list \<Rightarrow> string \<Rightarrow> ('z net_scheme, SettingWriteResult) io" where
  "set_privacy_masks srv token cam masks api_url = set_regions srv token cam ''privacy_masks'' masks api_url"

subsection \<open>Runs of the shared operations\<close>

lemma send_setting_run:
  "send_setting srv token method url body what detail w =
     ((case (case srv (hist w) (setting_request token method url body) of
               Inl e \<Rightarrow> Inl e | Inr r \<Rightarrow> classify_write what detail body r) of
         Inl e \<Rightarrow> Inl (if is_net_error e then BoschCameraConnectionError (plain_info (net_error_text e)) else e)
       | Inr x \<Rightarrow> Inr x),
      w\<lparr>hist := hist w @ [setting_request token method url body]\<rparr>)"
  by (auto simp: send_setting_def net_reraise_def send_def io_defs split: sum.splits)

interpretation ss: bearer_call "\<lambda>srv. send_setting srv token verb url body what detail"
    "setting_request token verb url body" for token verb url body what detail
  by unfold_locales (auto simp: send_setting_run classify_write_def Let_def http_info_def split: sum.splits)

lemma fetch_setting_hist:
  "hist (snd (fetch_setting srv token url what w)) = hist w @ [get_request token url]"
  by (auto simp: fetch_setting_def catch_io_def raise_def fetch_json_run split: sum.splits exn.splits)

lemma get_object_hist:
  "hist (snd (get_object srv token cam endpoint api_url w)) =
     hist w @ [get_request token (video_input_url api_url cam endpoint)]"
  using fetch_setting_hist [of srv token "video_input_url api_url cam endpoint" endpoint w]
  by (auto simp: get_object_def bind_io_def raise_def ret_def split: prod.splits sum.splits option.splits)

lemma fetch_setting_Inr_iff:
  "fetch_setting srv token url what w = (Inr j, w') \<longleftrightarrow> fetch_json srv token url what w = (Inr j, w')"
  by (auto simp: fetch_setting_def catch_io_def raise_def split: prod.splits sum.splits exn.splits)

lemma get_object_Inr_iff:
  "get_object srv token cam endpoint api_url w = (Inr d, w') \<longleftrightarrow>
     (\<exists>r. srv (hist w) (get_request token (video_input_url api_url cam endpoint)) = Inr r \<and>
          rs_status r = 200 \<and> rs_json r = Inr (JObj d)) \<and>
     w' = w\<lparr>hist := hist w @ [get_request token (video_input_url api_url cam endpoint)]\<rparr>"
  unfolding get_object_def bind_io_Inr_iff fetch_setting_Inr_iff fetch_json_Inr_iff
  by (auto simp: raise_def ret_def split: option.splits)

text \<open>A GET that fails leaves the update without a write: its error is the result.\<close>

lemma merge_put_read_fails:
  assumes "\<not> has_nonfinite changes" "get_object srv token cam endpoint api_url w = (Inl e, w')"
  shows "merge_put srv token cam endpoint changes api_url w = (Inl e, w')"
  using assms by (simp add: merge_put_def bind_io_Inl)

text \<open>A successful update: the object read, then one PUT of that object with the changes merged in.\<close>

lemma merge_put_Inr:
  assumes "merge_put srv token cam endpoint changes api_url w = (Inr res, w')"
  shows "\<exists>current. current \<noteq> [] \<and> \<not> has_nonfinite changes \<and>
    fst (get_object srv token cam endpoint api_url w) = Inr current \<and>
    hist w' = hist w @
      [get_request token (video_input_url api_url cam endpoint),
       setting_request token ''PUT'' (video_input_url api_url cam endpoint) (Some (JObj (dict_merge current changes)))] \<and>
    sw_sent res = Some (JObj (dict_merge current changes)) \<and> ok_status (sw_status res)"
proof -
  from assms have nf: "\<not> has_nonfinite changes" by (auto simp: merge_put_def raise_def split: if_splits)
  with assms obtain current w1 where g: "get_object srv token cam endpoint api_url w = (Inr current, w1)"
    and rest: "(if current = [] then raise (invalid (endpoint @ '' is empty''))
        else send_setting srv token ''PUT'' (video_input_url api_url cam endpoint)
               (Some (JObj (dict_merge current changes))) endpoint False) w1 = (Inr res, w')"
    by (auto simp: merge_put_def bind_io_Inr_iff)
  from rest have ne: "current \<noteq> []" by (auto simp: raise_def)
  have "hist w1 = hist w @ [get_request token (video_input_url api_url cam endpoint)]"
    using get_object_hist [of srv token cam endpoint api_url w] g by simp
  with rest ne nf g show ?thesis
    by (auto simp: send_setting_run classify_write_def Let_def split: sum.splits if_splits)
qed

subsection \<open>Properties\<close>

text \<open>C15
  An update of a setting keeps what it does not change: when it succeeds it has sent one GET and one
  PUT to the same URL, and the object sent has the new value under every key that is changed and under
  every other key what was read.\<close>

theorem update_keeps_rest:
  assumes "merge_put srv token cam endpoint changes api_url w = (Inr res, w')" "distinct (map fst changes)"
  shows "\<exists>current sent. fst (get_object srv token cam endpoint api_url w) = Inr current \<and> current \<noteq> [] \<and>
    sw_sent res = Some (JObj sent) \<and> ok_status (sw_status res) \<and>
    hist w' = hist w @
      [get_request token (video_input_url api_url cam endpoint),
       setting_request token ''PUT'' (video_input_url api_url cam endpoint) (Some (JObj sent))] \<and>
    (\<forall>k. dict_get sent k = (case dict_get changes k of Some v \<Rightarrow> Some v | None \<Rightarrow> dict_get current k))"
  using merge_put_Inr [OF assms(1)] dict_get_merge_distinct [OF assms(2)] by blast

definition audio_server :: server where
  "audio_server past rq =
     (if past = [] then Inr (plain_response 200 ''{}'' (JObj [(''audioEnabled'', JBool True), (''speakerLevel'', JInt 40)]))
      else Inr (plain_response 204 [] JNull))"

theorem update_keeps_rest_witness:
  "\<exists>res w' sent. merge_put audio_server ''t'' ''c'' ''audio'' [(''speakerLevel'', JInt 70)] ''u'' \<lparr>hist = []\<rparr> = (Inr res, w') \<and>
     sw_sent res = Some (JObj sent) \<and> dict_get sent ''speakerLevel'' = Some (JInt 70) \<and> dict_get sent ''audioEnabled'' = Some (JBool True)"
proof -
  let ?run = "merge_put audio_server ''t'' ''c'' ''audio'' [(''speakerLevel'', JInt 70)] ''u'' \<lparr>hist = []\<rparr>"
  have "fst ?run = Inr \<lparr>sw_status = 204, sw_response = None,
      sw_sent = Some (JObj [(''audioEnabled'', JBool True), (''speakerLevel'', JInt 70)])\<rparr>" by code_simp
  then obtain res where r: "?run = (Inr res, snd ?run)" by (metis prod.collapse)
  from update_keeps_rest [OF r] obtain current sent where s:
      "fst (get_object audio_server ''t'' ''c'' ''audio'' ''u'' \<lparr>hist = []\<rparr>) = Inr current" "sw_sent res = Some (JObj sent)"
      "\<And>k. dict_get sent k = (case dict_get [(''speakerLevel'', JInt 70)] k of Some v \<Rightarrow> Some v | None \<Rightarrow> dict_get current k)"
    by auto
  have "fst (get_object audio_server ''t'' ''c'' ''audio'' ''u'' \<lparr>hist = []\<rparr>) =
      Inr [(''audioEnabled'', JBool True), (''speakerLevel'', JInt 40)]" by code_simp
  with s(1) have c: "current = [(''audioEnabled'', JBool True), (''speakerLevel'', JInt 40)]" by simp
  have "dict_get sent ''speakerLevel'' = Some (JInt 70)" "dict_get sent ''audioEnabled'' = Some (JBool True)"
    unfolding s(3) c by (simp_all add: dict_get_def)
  with s(2) r show ?thesis by blast
qed


end
