(* ===== verification/States.thy ===== *)
theory States
  imports Cloud
begin

section \<open>Camera states\<close>

text \<open>
  \<open>states.py\<close>: the account states of the camera list and the per-camera readers (Wi-Fi, motion,
  notification toggles, light override, firmware). The check \<open>math.isfinite\<close> of a Python integer
  converts it to a float first, which raises for an integer no float can hold: \<open>py_isfinite\<close>.
\<close>

record CameraAccountStates =
  st_privacy_mode :: "bool option"
  st_notifications_status :: "string option"

definition notifications_enabled :: "CameraAccountStates \<Rightarrow> bool option" where
  "notifications_enabled s =
     (case st_notifications_status s of None \<Rightarrow> None | Some t \<Rightarrow> Some (t \<noteq> ''ALWAYS_OFF''))"

record MotionSettings =
  mo_enabled :: bool
  mo_sensitivity :: "string option"

record LightState =
  ls_front_light_on :: bool
  ls_wallwasher_on :: bool
  ls_front_light_intensity :: "rat option"

definition any_on :: "LightState \<Rightarrow> bool" where
  "any_on s \<longleftrightarrow> ls_front_light_on s \<or> ls_wallwasher_on s"

record FirmwareStatus =
  fw_current :: "string option"
  fw_update :: "string option"
  fw_up_to_date :: "bool option"
  fw_updating :: bool

definition get_state_object :: "server \<Rightarrow> string \<Rightarrow> string \<Rightarrow> string \<Rightarrow> string \<Rightarrow> ('z net_scheme, obj) io" where
  "get_state_object srv token camera_id endpoint api_url =
     bind_io (fetch_json srv token (video_input_url api_url camera_id endpoint) endpoint) (\<lambda>payload.
       case as_obj payload of
         None \<Rightarrow> raise (invalid (endpoint @ '' is not an object''))
       | Some d \<Rightarrow> ret d)"

definition privacy_of :: "json \<Rightarrow> bool option" where
  "privacy_of j =
     (case j of
        JStr s \<Rightarrow> if upper s = ''ON'' then Some True else if upper s = ''OFF'' then Some False else None
      | _ \<Rightarrow> None)"

fun account_states :: "json list \<Rightarrow> (string, CameraAccountStates) dict \<Rightarrow> (string, CameraAccountStates) dict" where
  "account_states [] states = states"
| "account_states (item # items) states =
     (case item of
        JObj d \<Rightarrow>
          (case nonempty_str (get d ''id'') of
             None \<Rightarrow> account_states items states
           | Some camera_id \<Rightarrow>
               account_states items
                 (dict_set camera_id
                   \<lparr>st_privacy_mode = privacy_of (get d ''privacyMode''),
                    st_notifications_status = nonempty_str (get d ''notificationsEnabledStatus'')\<rparr> states))
      | _ \<Rightarrow> account_states items states)"

definition get_camera_account_states ::
    "server \<Rightarrow> string \<Rightarrow> string \<Rightarrow> ('z net_scheme, (string, CameraAccountStates) dict) io" where
  "get_camera_account_states srv token api_url =
     bind_io (fetch_json srv token (api_url @ ''/v11/video_inputs'') ''Camera list'') (\<lambda>payload.
       case as_list payload of
         None \<Rightarrow> raise (invalid ''Camera list is not an array'')
       | Some items \<Rightarrow> ret (account_states items []))"

text \<open>\<open>math.isfinite\<close> of a JSON number, and \<open>float\<close> of one.\<close>

definition py_isfinite :: "json \<Rightarrow> exn + bool" where
  "py_isfinite j =
     (case j of
        JInt n \<Rightarrow> (case float_of_int n of Inl e \<Rightarrow> Inl e | Inr x \<Rightarrow> Inr (is_finite x))
      | JFloat x \<Rightarrow> Inr (is_finite x)
      | _ \<Rightarrow> Inl TypeError)"

definition is_number :: "json \<Rightarrow> bool" where
  "is_number j \<longleftrightarrow> (case j of JInt _ \<Rightarrow> True | JFloat _ \<Rightarrow> True | _ \<Rightarrow> False)"

definition trunc :: "rat \<Rightarrow> int" where
  "trunc q = (if 0 \<le> q then \<lfloor>q\<rfloor> else \<lceil>q\<rceil>)"

definition py_int :: "json \<Rightarrow> int" where
  "py_int j = (case j of JInt n \<Rightarrow> n | JFloat (Fin q) \<Rightarrow> trunc q | _ \<Rightarrow> 0)"

definition wifi_signal :: "json \<Rightarrow> exn + int option" where
  "wifi_signal signal =
     (if \<not> is_number signal then Inr None
      else case py_isfinite signal of
        Inl e \<Rightarrow> Inl e
      | Inr fin \<Rightarrow> Inr (if fin then Some (py_int signal) else None))"

definition get_wifi_info :: "server \<Rightarrow> string \<Rightarrow> string \<Rightarrow> string \<Rightarrow> ('z net_scheme, int option) io" where
  "get_wifi_info srv token camera_id api_url =
     bind_io (get_state_object srv token camera_id ''wifiinfo'' api_url) (\<lambda>body.
       lift (wifi_signal (get body ''signalStrength'')))"

definition get_motion_settings :: "server \<Rightarrow> string \<Rightarrow> string \<Rightarrow> string \<Rightarrow> ('z net_scheme, MotionSettings) io" where
  "get_motion_settings srv token camera_id api_url =
     bind_io (get_state_object srv token camera_id ''motion'' api_url) (\<lambda>body.
       ret \<lparr>mo_enabled = is_true (get body ''enabled''),
            mo_sensitivity = nonempty_str (get body ''motionAlarmConfiguration'')\<rparr>)"

fun bool_items :: "obj \<Rightarrow> (string, bool) dict" where
  "bool_items [] = []"
| "bool_items ((k, v) # d) = (case as_bool v of None \<Rightarrow> bool_items d | Some b \<Rightarrow> (k, b) # bool_items d)"

definition get_notification_types :: "server \<Rightarrow> string \<Rightarrow> string \<Rightarrow> string \<Rightarrow> ('z net_scheme, (string, bool) dict) io" where
  "get_notification_types srv token camera_id api_url =
     bind_io (get_state_object srv token camera_id ''notifications'' api_url) (\<lambda>body. ret (bool_items body))"

definition light_intensity :: "json \<Rightarrow> exn + rat option" where
  "light_intensity j =
     (if \<not> is_number j then Inr None
      else case py_isfinite j of
        Inl e \<Rightarrow> Inl e
      | Inr fin \<Rightarrow>
          Inr (if fin then (case j of
                 JInt n \<Rightarrow> (case float_of_int n of Inr (Fin q) \<Rightarrow> Some q | _ \<Rightarrow> None)
               | JFloat (Fin q) \<Rightarrow> Some q
               | _ \<Rightarrow> None) else None))"

definition get_light_state :: "server \<Rightarrow> string \<Rightarrow> string \<Rightarrow> string \<Rightarrow> ('z net_scheme, LightState) io" where
  "get_light_state srv token camera_id api_url =
     bind_io (get_state_object srv token camera_id ''lighting_override'' api_url) (\<lambda>body.
       case (as_bool (get body ''frontLightOn''), as_bool (get body ''wallwasherOn'')) of
         (Some front, Some wall) \<Rightarrow>
           bind_io (lift (light_intensity (get body ''frontLightIntensity''))) (\<lambda>intensity.
             ret \<lparr>ls_front_light_on = front, ls_wallwasher_on = wall, ls_front_light_intensity = intensity\<rparr>)
       | _ \<Rightarrow> raise (invalid ''lighting_override has no light state''))"

definition get_firmware_status :: "server \<Rightarrow> string \<Rightarrow> string \<Rightarrow> string \<Rightarrow> ('z net_scheme, FirmwareStatus) io" where
  "get_firmware_status srv token camera_id api_url =
     bind_io (get_state_object srv token camera_id ''firmware'' api_url) (\<lambda>body.
       ret \<lparr>fw_current = nonempty_str (get body ''current''), fw_update = nonempty_str (get body ''update''),
            fw_up_to_date = as_bool (get body ''upToDate''), fw_updating = is_true (get body ''updating'')\<rparr>)"

subsection \<open>What the account states hold\<close>

definition state_of_item :: "json \<Rightarrow> (string \<times> CameraAccountStates) option" where
  "state_of_item item =
     (case item of
        JObj d \<Rightarrow>
          (case nonempty_str (get d ''id'') of
             None \<Rightarrow> None
           | Some camera_id \<Rightarrow>
               Some (camera_id,
                   \<lparr>st_privacy_mode = privacy_of (get d ''privacyMode''),
                    st_notifications_status = nonempty_str (get d ''notificationsEnabledStatus'')\<rparr>))
      | _ \<Rightarrow> None)"

lemma account_states_step:
  "account_states (item # items) states =
     (case state_of_item item of
        None \<Rightarrow> account_states items states
      | Some (camera_id, st) \<Rightarrow> account_states items (dict_set camera_id st states))"
proof (cases item)
  case (JObj d)
  show ?thesis
    by (cases "nonempty_str (get d ''id'')") (simp_all add: JObj state_of_item_def del: nonempty_str_Some)
qed (simp_all add: state_of_item_def)

lemma account_states_fold:
  "account_states items states = dict_merge states (List.map_filter state_of_item items)"
proof (induction items arbitrary: states)
  case Nil
  show ?case by (simp add: List.map_filter_simps)
next
  case (Cons item items)
  show ?case
    by (cases "state_of_item item")
      (auto simp: account_states_step Cons.IH List.map_filter_simps simp del: account_states.simps)
qed

text \<open>Each camera id maps to the state of the last entry of the list that carries it.\<close>

lemma account_states_lookup:
  "dict_get (account_states items []) camera_id = dict_get (rev (List.map_filter state_of_item items)) camera_id"
  by (simp add: account_states_fold dict_get_merge) (simp add: dict_get_def split: option.splits)

lemma dict_merge_distinct: "distinct (map fst d) \<Longrightarrow> distinct (map fst (dict_merge d e))"
  by (induction d e rule: dict_merge.induct) (auto simp: dict_set_def AList.distinct_update)

lemma account_states_distinct: "distinct (map fst (account_states items []))"
  by (simp add: account_states_fold dict_merge_distinct)

end
