(* ===== verification/Live.thy ===== *)
theory Live
  imports SettingsOps States
begin

section \<open>Live sessions and the client object\<close>

text \<open>
  \<open>live.py\<close>: the LOCAL session opened on a camera, the validation of the address it answers with
  and the stream URL; \<open>client.py\<close>: the object that awaits its token source before each call. The
  lemmas are about what an accepted address can hold.
\<close>

subsection \<open>The camera's address\<close>

definition HOST_LABEL :: "char rx" where
  "HOST_LABEL =
     (let c = RChr (\<lambda>c. is_alpha c \<or> is_digit c \<or> c = CHR ''-'') in
      RSeq (RNotAhead (\<lambda>c. c = CHR ''-'')) (RSeq (RSeq c (r_upto 62 c)) (RNotBehind (\<lambda>c. c = CHR ''-''))))"

definition HOST_PATTERN :: "char rx" where
  "HOST_PATTERN = RSeq HOST_LABEL (RStar (RSeq (RChr (\<lambda>c. c = CHR ''.'')) HOST_LABEL))"

fun dec_val :: "string \<Rightarrow> int \<Rightarrow> int" where
  "dec_val [] acc = acc"
| "dec_val (c # cs) acc = dec_val cs (10 * acc + (int (code c) - 48))"

definition port_of_text :: "string \<Rightarrow> int" where
  "port_of_text t = (if t \<noteq> [] \<and> list_all is_digit t \<and> length t \<le> 5 then dec_val t 0 else 0)"

definition address :: "obj \<Rightarrow> exn + (string \<times> int)" where
  "address response =
     (let (host, _, port_text) =
        (case get response ''urls'' of
           JArr (JStr a # _) \<Rightarrow> partition_on (CHR '':'') a
         | _ \<Rightarrow> ([], [], []));
        port = port_of_text port_text in
      if \<not> (0 < port \<and> port \<le> 65535) \<or> \<not> rx_fullmatch HOST_PATTERN host
      then Inl (invalid ''Live connection has no camera address'') else Inr (host, port))"

subsection \<open>Opening a session\<close>

record LiveConnection =
  lc_connection_type :: string
  lc_host :: string
  lc_port :: int
  lc_username :: string
  lc_password :: string
  lc_snapshot_url :: string
  lc_max_session_seconds :: int
  lc_buffering_ms :: int

definition SESSION_SECONDS :: int where
  "SESSION_SECONDS = 3600"

definition DEFAULT_BUFFERING_MS :: int where
  "DEFAULT_BUFFERING_MS = 500"

definition live_connection :: "obj \<Rightarrow> exn + LiveConnection" where
  "live_connection response =
     (case (nonempty_str (get response ''user''), nonempty_str (get response ''password'')) of
        (Some username, Some password) \<Rightarrow>
          (case address response of
             Inl e \<Rightarrow> Inl e
           | Inr (host, port) \<Rightarrow>
               Inr \<lparr>lc_connection_type = ''LOCAL'', lc_host = host, lc_port = port,
                    lc_username = username, lc_password = password,
                    lc_snapshot_url = ''https://'' @ host @ '':'' @ int_str port @ ''/snap.jpg?JpegSize=1206'',
                    lc_max_session_seconds = SESSION_SECONDS,
                    lc_buffering_ms =
                      (case integer_of_json (get response ''bufferingTime'') of
                         None \<Rightarrow> DEFAULT_BUFFERING_MS
                       | Some b \<Rightarrow> if b < 0 then DEFAULT_BUFFERING_MS else b)\<rparr>)
      | _ \<Rightarrow> Inl (invalid ''Live connection has no credentials''))"

definition open_local_live_connection ::
    "server \<Rightarrow> string \<Rightarrow> string \<Rightarrow> bool \<Rightarrow> string \<Rightarrow> ('z net_scheme, LiveConnection) io" where
  "open_local_live_connection srv token camera_id high_quality api_url =
     bind_io (put_setting srv token camera_id ''connection''
         (Some (JObj [(''type'', JStr ''LOCAL''), (''highQualityVideo'', JBool high_quality)])) ''PUT'' api_url) (\<lambda>result.
       case sw_response result of
         None \<Rightarrow> raise (invalid ''Live connection answered without a body'')
       | Some response \<Rightarrow> lift (live_connection response))"

text \<open>\<open>quality_instance\<close> is checked to be an integer, and no bool, among 1 to 4.\<close>

definition stream_url :: "LiveConnection \<Rightarrow> int \<Rightarrow> json \<Rightarrow> bool \<Rightarrow> string \<Rightarrow> exn + string" where
  "stream_url c proxy_port quality_instance audio proxy_host =
     (case quality_instance of
        JInt q \<Rightarrow>
          if q \<in> {1, 2, 3, 4} then
            Inr (''rtsp://'' @ quote (lc_username c) @ '':'' @ quote (lc_password c) @ ''@'' @
                 (if CHR '':'' \<in> set proxy_host then ''['' @ proxy_host @ '']'' else proxy_host) @ '':'' @ int_str proxy_port @
                 ''/rtsp_tunnel?inst='' @ int_str q @ ''&enableaudio='' @ (if audio then ''1'' else ''0'') @ ''&fmtp=1'' @
                 ''&maxSessionDuration='' @ int_str (lc_max_session_seconds c))
          else Inl (ValueError ''quality_instance'')
      | _ \<Rightarrow> Inl (ValueError ''quality_instance''))"

subsection \<open>The client\<close>

text \<open>The token source is awaited anew by every method, before the request.\<close>

record 's BoschCameraClient =
  bc_session :: server
  bc_token_source :: "('s, string) io"
  bc_api_url :: string

definition client_list_cameras :: "('z net_scheme) BoschCameraClient \<Rightarrow> ('z net_scheme, Camera list) io" where
  "client_list_cameras c =
     bind_io (bc_token_source c) (\<lambda>token. list_cameras (bc_session c) token (bc_api_url c))"

definition client_get_latest_event_image ::
    "(string \<Rightarrow> bool) \<Rightarrow> ('z net_scheme) BoschCameraClient \<Rightarrow> string \<Rightarrow> ('z net_scheme, bytes option) io" where
  "client_get_latest_event_image netloc_ok c camera_id =
     bind_io (bc_token_source c) (\<lambda>token. get_latest_event_image (bc_session c) netloc_ok token camera_id (bc_api_url c))"

definition client_get_camera_account_states ::
    "('z net_scheme) BoschCameraClient \<Rightarrow> ('z net_scheme, (string, CameraAccountStates) dict) io" where
  "client_get_camera_account_states c =
     bind_io (bc_token_source c) (\<lambda>token. get_camera_account_states (bc_session c) token (bc_api_url c))"

definition client_set_privacy_mode ::
    "('z net_scheme) BoschCameraClient \<Rightarrow> string \<Rightarrow> bool \<Rightarrow> ('z net_scheme, CloudPutResult) io" where
  "client_set_privacy_mode c camera_id enabled =
     bind_io (bc_token_source c) (\<lambda>token. cloud_set_privacy_mode (bc_session c) token camera_id enabled)"

definition client_open_local_live_connection ::
    "('z net_scheme) BoschCameraClient \<Rightarrow> string \<Rightarrow> bool \<Rightarrow> ('z net_scheme, LiveConnection) io" where
  "client_open_local_live_connection c camera_id high_quality =
     bind_io (bc_token_source c) (\<lambda>token.
       open_local_live_connection (bc_session c) token camera_id high_quality (bc_api_url c))"

subsection \<open>Accepted addresses\<close>

lemma dec_val_nonneg: "list_all is_digit t \<Longrightarrow> 0 \<le> acc \<Longrightarrow> 0 \<le> dec_val t acc"
  by (induction t arbitrary: acc) (auto simp: is_digit_def)

lemma host_pattern_chars:
  "rx_fullmatch HOST_PATTERN h \<Longrightarrow> c \<in> set h \<Longrightarrow> is_alpha c \<or> is_digit c \<or> c = CHR ''-'' \<or> c = CHR ''.''"
  by (drule (1) rx_fullmatch_alphabet) (auto simp: HOST_PATTERN_def HOST_LABEL_def Let_def dest: rx_alphabet_upto)

lemma host_pattern_nonempty: "rx_fullmatch HOST_PATTERN h \<Longrightarrow> h \<noteq> []"
  by (auto simp: rx_fullmatch_def HOST_PATTERN_def HOST_LABEL_def Let_def)

lemma address_Inr:
  "address response = Inr (h, p) \<Longrightarrow> 0 < p \<and> p \<le> 65535 \<and> rx_fullmatch HOST_PATTERN h"
  by (auto simp: address_def Let_def split: prod.splits if_splits)

lemma live_connection_Inr:
  assumes "live_connection response = Inr c"
  shows "address response = Inr (lc_host c, lc_port c) \<and> lc_username c \<noteq> [] \<and> lc_password c \<noteq> [] \<and>
    0 \<le> lc_buffering_ms c"
  using assms
  by (auto simp: live_connection_def DEFAULT_BUFFERING_MS_def split: option.splits sum.splits prod.splits if_splits)

lemma int_str_nat: "0 \<le> n \<Longrightarrow> int_str n = nat_str (nat n)"
  by (simp add: int_str_def)

text \<open>The URL of the stream for an accepted quality.\<close>

lemma stream_url_Inr:
  assumes "q \<in> {1, 2, 3, 4}" "list_all is_host_char h"
  shows "stream_url c port (JInt q) audio h =
    Inr (''rtsp://'' @ quote (lc_username c) @ '':'' @ quote (lc_password c) @ ''@'' @ h @ '':'' @ int_str port @
      ''/rtsp_tunnel?inst='' @ int_str q @ ''&enableaudio='' @ (if audio then ''1'' else ''0'') @ ''&fmtp=1'' @
      ''&maxSessionDuration='' @ int_str (lc_max_session_seconds c))"
proof -
  have "CHR '':'' \<notin> set h" using assms(2) host_char_plain(4) unfolding list_all_iff by blast
  then show ?thesis using assms(1) by (simp only: stream_url_def json.case if_True if_False)
qed

lemma hostname_host_port:
  assumes "h \<noteq> []" "list_all is_host_char h" "0 \<le> port"
  shows "hostname (u @ ''@'' @ h @ '':'' @ int_str port) = Some (lower h)" "hostname (h @ '':'' @ int_str port) = Some (lower h)"
proof -
  have "list_all (\<lambda>c. c \<noteq> CHR ''@'' \<and> c \<noteq> CHR ''['' \<and> c \<noteq> CHR '':'' \<and> c \<noteq> CHR ''%'') h"
    using assms(2) host_char_plain(4) unfolding list_all_iff by blast
  from hostname_port [OF assms(1) this, of "int_str port"] nat_str_digits assms(3)
  show "hostname (u @ ''@'' @ h @ '':'' @ int_str port) = Some (lower h)" "hostname (h @ '':'' @ int_str port) = Some (lower h)"
    by (simp_all add: int_str_nat)
qed

lemma url_pieces:
  "plain_scheme ''https''" "plain_scheme ''rtsp''" "plain_netloc '':''" "plain_netloc ''@''"
  "url_tail ''/snap.jpg?JpegSize=1206''" "url_tail (''/rtsp_tunnel?inst='' @ x)"
  "0 \<le> n \<Longrightarrow> plain_netloc (int_str n)"
proof -
  show "plain_scheme ''https''" "plain_scheme ''rtsp''" "plain_netloc '':''" "plain_netloc ''@''"
    "url_tail ''/snap.jpg?JpegSize=1206''" "url_tail (''/rtsp_tunnel?inst='' @ x)"
    by (simp_all add: plain_scheme_def plain_netloc_def is_netloc_end_def code_def url_tail_def)
  show "0 \<le> n \<Longrightarrow> plain_netloc (int_str n)"
    using nat_str_host by (simp add: int_str_nat plain_netloc_host)
qed

lemma snapshot_url_host:
  assumes "live_connection response = Inr c"
  shows "0 < lc_port c \<and> lc_port c \<le> 65535 \<and>
    (\<exists>p. urlparse ok (lc_snapshot_url c) = Inr p \<and> up_scheme p = ''https'' \<and> hostname (up_netloc p) = Some (lower (lc_host c)))"
proof -
  have a: "address response = Inr (lc_host c, lc_port c)" using live_connection_Inr [OF assms] by simp
  from address_Inr [OF a] have p: "0 < lc_port c" "lc_port c \<le> 65535" and host: "rx_fullmatch HOST_PATTERN (lc_host c)" by simp_all
  have lh: "lc_host c \<noteq> []" "list_all is_host_char (lc_host c)"
    using host_pattern_nonempty [OF host] host_pattern_chars [OF host] by (auto simp: list_all_iff is_host_char_def)
  have eq: "lc_snapshot_url c = ''https'' @ ''://'' @ (lc_host c @ '':'' @ int_str (lc_port c)) @ ''/snap.jpg?JpegSize=1206''"
    using assms by (auto simp: live_connection_def split: option.splits sum.splits prod.splits)
  have "plain_netloc (lc_host c @ '':'' @ int_str (lc_port c))"
    using lh(2) p(1) url_pieces by (simp only: plain_netloc_append plain_netloc_host less_imp_le)
  from urlparse_plain [OF url_pieces(1) this url_pieces(5), of ok] hostname_host_port(2) [OF lh, of "lc_port c"] p
  show ?thesis unfolding eq by (metis less_imp_le)
qed

lemma stream_url_host:
  assumes "h \<noteq> []" "list_all is_host_char h" "0 \<le> port" "q \<in> {1, 2, 3, 4}"
  shows "\<exists>u p. stream_url c port (JInt q) audio h = Inr u \<and> urlparse ok u = Inr p \<and> up_scheme p = ''rtsp'' \<and>
    hostname (up_netloc p) = Some (lower h)"
proof -
  let ?cred = "quote (lc_username c) @ '':'' @ quote (lc_password c)"
  let ?n = "?cred @ ''@'' @ h @ '':'' @ int_str port"
  have "plain_netloc ?n"
    using plain_netloc_quote assms(2,3) url_pieces by (simp only: plain_netloc_append plain_netloc_host)
  from urlparse_plain [OF url_pieces(2) this url_pieces(6)] obtain p where p: "urlparse ok (''rtsp'' @ ''://'' @ ?n @ ''/rtsp_tunnel?inst='' @
      int_str q @ ''&enableaudio='' @ (if audio then ''1'' else ''0'') @ ''&fmtp=1'' @
      ''&maxSessionDuration='' @ int_str (lc_max_session_seconds c)) = Inr p" "up_scheme p = ''rtsp''" "up_netloc p = ?n"
    by blast
  have "stream_url c port (JInt q) audio h = Inr (''rtsp'' @ ''://'' @ ?n @ ''/rtsp_tunnel?inst='' @
      int_str q @ ''&enableaudio='' @ (if audio then ''1'' else ''0'') @ ''&fmtp=1'' @
      ''&maxSessionDuration='' @ int_str (lc_max_session_seconds c))"
    unfolding stream_url_Inr [OF assms(4,2)] by simp
  with p hostname_host_port(1) [OF assms(1-3), of ?cred] show ?thesis by (metis append_assoc)
qed

text \<open>C21
  Whatever the camera answers, the addresses made of an accepted answer lead where they should: the
  port is a port, the snapshot URL is an https URL of the announced host, and the stream URL is an rtsp
  URL of the local proxy, with user names and passwords of any characters.\<close>

theorem live_addresses:
  assumes "live_connection response = Inr c" "h \<noteq> []" "list_all is_host_char h" "0 \<le> port" "q \<in> {1, 2, 3, 4}"
  shows "0 < lc_port c \<and> lc_port c \<le> 65535 \<and>
    (\<exists>p. urlparse ok (lc_snapshot_url c) = Inr p \<and> up_scheme p = ''https'' \<and> hostname (up_netloc p) = Some (lower (lc_host c))) \<and>
    (\<exists>u p. stream_url c port (JInt q) audio h = Inr u \<and> urlparse ok u = Inr p \<and> up_scheme p = ''rtsp'' \<and>
       hostname (up_netloc p) = Some (lower h))"
  using snapshot_url_host [OF assms(1), of ok] stream_url_host [OF assms(2-5), of c audio ok] by blast

definition sample_live :: obj where
  "sample_live = [(''user'', JStr ''cbs@x''), (''password'', JStr ''p/w#1''), (''urls'', JArr [JStr ''192.168.1.5:443''])]"

theorem live_addresses_witness:
  "\<exists>c u p. live_connection sample_live = Inr c \<and> lc_password c = ''p/w#1'' \<and> stream_url c 5000 (JInt 1) True ''127.0.0.1'' = Inr u \<and>
     urlparse (\<lambda>_. True) u = Inr p \<and> hostname (up_netloc p) = Some ''127.0.0.1''"
proof -
  let ?c = "\<lparr>lc_connection_type = ''LOCAL'', lc_host = ''192.168.1.5'', lc_port = 443, lc_username = ''cbs@x'',
    lc_password = ''p/w#1'', lc_snapshot_url = ''https://192.168.1.5:443/snap.jpg?JpegSize=1206'',
    lc_max_session_seconds = 3600, lc_buffering_ms = 500\<rparr>"
  have "live_connection sample_live = Inr ?c" by code_simp
  moreover have "list_all is_host_char ''127.0.0.1''" "lower ''127.0.0.1'' = ''127.0.0.1''" by code_simp+
  ultimately show ?thesis
    using live_addresses [of sample_live ?c "''127.0.0.1''" 5000 1 "\<lambda>_. True" True] by auto
qed

end
