(* ===== verification/Events.thy ===== *)
theory Events
  imports Cloud "HOL-Library.List_Lexorder" "HOL-Library.Char_ord"
begin

section \<open>Events and feature flags\<close>

text \<open>
  \<open>events.py\<close>: the parsed and the raw event list, the last event and the feature flags. A
  \<open>datetime\<close> is a number of microseconds since 0001-01-01T00:00:00 with an optional offset from
  UTC in microseconds; \<open>datetime.fromisoformat\<close> is a parameter that yields one. Names of flags are
  sorted in the lexicographic order of their characters, as Python sorts strings.
\<close>

record datetime =
  dt_local :: int
  dt_offset :: "int option"

text \<open>The end of the year 9999, and the instants a \<open>datetime\<close> can hold.\<close>

definition DATETIME_END :: int where
  "DATETIME_END = 3652059 * 86400 * 1000000"

definition astimezone_utc :: "int \<Rightarrow> int \<Rightarrow> exn + int" where
  "astimezone_utc local offset =
     (let u = local - offset in if 0 \<le> u \<and> u < DATETIME_END then Inr u else Inl OverflowError)"

text \<open>The result is in UTC: its microseconds since year 1.\<close>

definition parse_event_timestamp :: "(string \<Rightarrow> exn + datetime) \<Rightarrow> json \<Rightarrow> exn + int option" where
  "parse_event_timestamp fromiso value =
     (case nonempty_str value of
        None \<Rightarrow> Inr None
      | Some v \<Rightarrow>
          (case fromiso (hd (split_on (CHR ''['') v)) of
             Inl e \<Rightarrow> if is_value_error e then Inr None else Inl e
           | Inr parsed \<Rightarrow>
               (case dt_offset parsed of
                  None \<Rightarrow> Inr (Some (dt_local parsed))
                | Some offset \<Rightarrow>
                    (case astimezone_utc (dt_local parsed) offset of
                       Inl e \<Rightarrow> if e = OverflowError then Inr None else Inl e
                     | Inr u \<Rightarrow> Inr (Some u)))))"

record Event =
  ev_id :: string
  ev_camera_id :: string
  ev_timestamp :: "int option"
  ev_event_type :: string
  ev_tags :: "string list"
  ev_image_url :: "string option"
  ev_clip_url :: "string option"
  ev_clip_status :: "string option"
  ev_is_read :: bool

fun str_items :: "json list \<Rightarrow> string list" where
  "str_items [] = []"
| "str_items (JStr s # xs) = s # str_items xs"
| "str_items (_ # xs) = str_items xs"

definition parse_event :: "(string \<Rightarrow> exn + datetime) \<Rightarrow> string \<Rightarrow> json \<Rightarrow> exn + Event" where
  "parse_event fromiso camera_id item =
     (case as_obj item of
        None \<Rightarrow> Inl (invalid ''Event is not an object'')
      | Some d \<Rightarrow>
          (case nonempty_str (get d ''id'') of
             None \<Rightarrow> Inl (invalid ''Event has no id'')
           | Some event_id \<Rightarrow>
               (case parse_event_timestamp fromiso (get d ''timestamp'') of
                  Inl e \<Rightarrow> Inl e
                | Inr timestamp \<Rightarrow>
                    Inr \<lparr>ev_id = event_id, ev_camera_id = camera_id, ev_timestamp = timestamp,
                         ev_event_type = (case nonempty_str (get d ''eventType'') of Some t \<Rightarrow> t | None \<Rightarrow> ''UNKNOWN''),
                         ev_tags = (case get d ''eventTags'' of JArr tags \<Rightarrow> str_items tags | _ \<Rightarrow> []),
                         ev_image_url = nonempty_str (get d ''imageUrl''),
                         ev_clip_url = nonempty_str (get d ''videoClipUrl''),
                         ev_clip_status = nonempty_str (get d ''videoClipUploadStatus''),
                         ev_is_read = is_true (get d ''isRead'')\<rparr>)))"

definition event_list_url :: "string \<Rightarrow> string \<Rightarrow> int \<Rightarrow> string" where
  "event_list_url api_url camera_id limit =
     api_url @ ''/v11/events?videoInputId='' @ camera_id @ ''&limit='' @ int_str limit"

definition list_events ::
    "server \<Rightarrow> (string \<Rightarrow> exn + datetime) \<Rightarrow> string \<Rightarrow> string \<Rightarrow> int \<Rightarrow> string \<Rightarrow> ('z net_scheme, Event list) io" where
  "list_events srv fromiso token camera_id limit api_url =
     bind_io (fetch_json srv token (event_list_url api_url camera_id limit) ''Event list'') (\<lambda>payload.
       case as_list payload of
         None \<Rightarrow> raise (invalid ''Event list is not an array'')
       | Some items \<Rightarrow> lift (map_exn (parse_event fromiso camera_id) items))"

fun obj_items :: "json list \<Rightarrow> obj list" where
  "obj_items [] = []"
| "obj_items (JObj d # xs) = d # obj_items xs"
| "obj_items (_ # xs) = obj_items xs"

definition list_events_raw ::
    "server \<Rightarrow> string \<Rightarrow> string \<Rightarrow> int \<Rightarrow> string \<Rightarrow> ('z net_scheme, obj list) io" where
  "list_events_raw srv token camera_id limit api_url =
     bind_io (fetch_json srv token (event_list_url api_url camera_id limit) ''Event list'') (\<lambda>payload.
       case as_list payload of
         None \<Rightarrow> raise (invalid ''Event list is not an array'')
       | Some items \<Rightarrow> ret (obj_items items))"

definition get_last_event :: "server \<Rightarrow> string \<Rightarrow> string \<Rightarrow> string \<Rightarrow> ('z net_scheme, obj) io" where
  "get_last_event srv token camera_id api_url =
     bind_io (fetch_json srv token (video_input_url api_url camera_id ''last_event'') ''Last event'') (\<lambda>payload.
       case as_obj payload of
         None \<Rightarrow> raise (invalid ''Last event is not an object'')
       | Some d \<Rightarrow> ret d)"

subsection \<open>Feature flags\<close>

definition enabled_flags :: "(string, bool) dict \<Rightarrow> string list" where
  "enabled_flags flags = sort (map fst (filter snd flags))"

fun bool_map :: "obj \<Rightarrow> (string, bool) dict option" where
  "bool_map [] = Some []"
| "bool_map ((k, v) # d) =
     (case as_bool v of None \<Rightarrow> None | Some b \<Rightarrow> map_option (Cons (k, b)) (bool_map d))"

definition get_feature_flags :: "server \<Rightarrow> string \<Rightarrow> string \<Rightarrow> ('z net_scheme, (string, bool) dict) io" where
  "get_feature_flags srv token api_url =
     bind_io (fetch_json srv token (api_url @ ''/v11/feature_flags'') ''Feature flags'') (\<lambda>payload.
       case as_obj payload of
         None \<Rightarrow> raise (invalid ''Feature flags are not a bool map'')
       | Some d \<Rightarrow>
           (case bool_map d of None \<Rightarrow> raise (invalid ''Feature flags are not a bool map'') | Some flags \<Rightarrow> ret flags))"

subsection \<open>Lemmas\<close>

lemma bool_map_Some: "bool_map d = Some flags \<Longrightarrow> d = map (\<lambda>(k, b). (k, JBool b)) flags"
  by (induction d arbitrary: flags) (auto split: option.splits)

text \<open>The timestamp is either unusable, a naive time as it stands, or the instant in UTC.\<close>

lemma parse_event_timestamp_Some:
  assumes "parse_event_timestamp fromiso value = Inr (Some u)"
  shows "\<exists>v dt. value = JStr v \<and> fromiso (hd (split_on (CHR ''['') v)) = Inr dt \<and>
    u = dt_local dt - (case dt_offset dt of None \<Rightarrow> 0 | Some offset \<Rightarrow> offset) \<and>
    (dt_offset dt \<noteq> None \<longrightarrow> 0 \<le> u \<and> u < DATETIME_END)"
  using assms
  by (auto simp: parse_event_timestamp_def astimezone_utc_def Let_def split: option.splits sum.splits if_splits)

lemma parse_event_timestamp_total:
  assumes "\<And>s e. fromiso s = Inl e \<Longrightarrow> is_value_error e"
  shows "\<exists>r. parse_event_timestamp fromiso value = Inr r"
  using assms
  by (auto simp: parse_event_timestamp_def astimezone_utc_def Let_def split: option.splits sum.splits)

lemma parse_event_fields:
  assumes "parse_event fromiso camera_id item = Inr ev"
  shows "\<exists>d. item = JObj d \<and> get d ''id'' = JStr (ev_id ev) \<and> ev_id ev \<noteq> [] \<and>
    ev_camera_id ev = camera_id \<and> ev_event_type ev \<noteq> []"
  using assms by (auto simp: parse_event_def split: option.splits sum.splits)

lemma enabled_flags_set: "set (enabled_flags flags) = {name. (name, True) \<in> set flags}"
  by (force simp: enabled_flags_def)

lemma enabled_flags_sorted: "sorted (enabled_flags flags)"
  by (simp add: enabled_flags_def)

lemma obj_items_all: "list_all2 (\<lambda>x y. f x = Inr y) xs ys \<Longrightarrow>
  (\<And>x y. f x = Inr y \<Longrightarrow> \<exists>d. x = JObj d) \<Longrightarrow> map JObj (obj_items xs) = xs"
  by (induction xs ys rule: list_all2_induct) (force+)

end
