(* ===== verification/AuthUtils.thy ===== *)
theory AuthUtils
  imports Http Urls MediaTransfer Regex
begin

section \<open>HTTP Digest authentication\<close>

text \<open>
  \<open>auth_utils.py\<close>: parsing of a Digest challenge, the Authorization header computed from it and
  the request that answers a 401 with it. The two hash functions of \<open>hashlib\<close> and the client
  nonces of \<open>secrets.token_hex(8)\<close> are parameters. The abstract specification is the server's
  side of RFC 7616: \<open>expected_response\<close> recomputes the response from the directives of a header.
\<close>

record hash_lib =
  h_md5 :: "string \<Rightarrow> string"
  h_sha256 :: "string \<Rightarrow> string"

subsection \<open>The challenge\<close>

definition is_token_char :: "char \<Rightarrow> bool" where
  "is_token_char c \<longleftrightarrow>
     is_word c \<or> c = CHR ''.'' \<or> c = CHR ''/'' \<or> c = CHR ''+'' \<or> c = CHR ''='' \<or> c = CHR ''-''"

definition DIGEST_PARAM :: "char rx" where
  "DIGEST_PARAM =
     RSeq (RGrp 1 (r_plus (RChr is_word)))
       (RSeq (RChr (\<lambda>c. c = CHR ''=''))
         (RAlt (RSeq (RChr (\<lambda>c. c = CHR 0x22))
                 (RSeq (RGrp 2 (RStar (RChr (\<lambda>c. c \<noteq> CHR 0x22)))) (RChr (\<lambda>c. c = CHR 0x22))))
               (RGrp 3 (r_plus (RChr is_token_char)))))"

definition group_text :: "char groups \<Rightarrow> nat \<Rightarrow> string" where
  "group_text g n = (case map_of g n of Some t \<Rightarrow> t | None \<Rightarrow> [])"

definition digest_item :: "char groups \<Rightarrow> string \<times> string" where
  "digest_item g =
     (lower (group_text g 1), case map_of g 2 of Some v \<Rightarrow> v | None \<Rightarrow> group_text g 3)"

definition digest_params :: "string \<Rightarrow> (string, string) dict" where
  "digest_params s = dict_merge [] (map digest_item (rx_finditer DIGEST_PARAM [] s))"

definition parse_digest_challenge :: "string \<Rightarrow> exn + (string, string) dict" where
  "parse_digest_challenge www_auth =
     (let (scheme, _, params_str) = partition_on (CHR '' '') www_auth in
      if lower (py_strip scheme) \<noteq> ''digest'' then Inl (ValueError ''Expected Digest scheme'')
      else
        let params = digest_params params_str in
        if dict_get params ''nonce'' = None then Inl (ValueError ''Digest challenge missing nonce'')
        else Inr params)"

subsection \<open>The header\<close>

definition get_or :: "(string, string) dict \<Rightarrow> string \<Rightarrow> string \<Rightarrow> string" where
  "get_or d k v = (case dict_get d k of Some x \<Rightarrow> x | None \<Rightarrow> v)"

definition digest_uri :: "(string \<Rightarrow> bool) \<Rightarrow> string \<Rightarrow> exn + string" where
  "digest_uri netloc_ok url =
     (case urlparse netloc_ok url of
        Inl e \<Rightarrow> Inl e
      | Inr p \<Rightarrow> Inr (if up_query p = [] then up_path p else up_path p @ ''?'' @ up_query p))"

definition digest_hash :: "hash_lib \<Rightarrow> string \<Rightarrow> string \<Rightarrow> string" where
  "digest_hash lib algorithm = (if starts_with ''SHA-256'' algorithm then h_sha256 lib else h_md5 lib)"

definition is_sess :: "string \<Rightarrow> bool" where
  "is_sess algorithm \<longleftrightarrow> algorithm = ''MD5-SESS'' \<or> algorithm = ''SHA-256-SESS''"

definition digest_qop :: "string \<Rightarrow> string" where
  "digest_qop qop = (if qop = [] then [] else lower (py_strip (hd (split_on (CHR '','') qop))))"

definition colon_join :: "string list \<Rightarrow> string" where
  "colon_join parts = join_with '':'' parts"

definition NC :: string where
  "NC = ''00000001''"

definition digest_response where
  "digest_response lib algorithm user realm password nonce cnonce qop_value method uri =
     (let h = digest_hash lib algorithm;
          ha0 = h (colon_join [user, realm, password]);
          ha1 = (if is_sess algorithm then h (colon_join [ha0, nonce, cnonce]) else ha0);
          ha2 = h (colon_join [upper method, uri]) in
      if qop_value = ''auth'' then h (colon_join [ha1, nonce, NC, cnonce, qop_value, ha2])
      else h (colon_join [ha1, nonce, ha2]))"

definition quoted :: "string \<Rightarrow> string \<Rightarrow> string" where
  "quoted k v = k @ ''='' @ [CHR 0x22] @ v @ [CHR 0x22]"

definition build_digest_header ::
    "hash_lib \<Rightarrow> (string \<Rightarrow> bool) \<Rightarrow> string \<Rightarrow> string \<Rightarrow> string \<Rightarrow> string \<Rightarrow> string \<Rightarrow> (string, string) dict \<Rightarrow> exn + string"
  where
  "build_digest_header lib netloc_ok cnonce method url user password challenge =
     (case dict_get challenge ''nonce'' of
        None \<Rightarrow> Inl KeyError
      | Some nonce \<Rightarrow>
          let realm = get_or challenge ''realm'' []; opaque = get_or challenge ''opaque'' [];
              qop_value = digest_qop (get_or challenge ''qop'' []);
              algorithm = upper (get_or challenge ''algorithm'' ''MD5'') in
          (case digest_uri netloc_ok url of
             Inl e \<Rightarrow> Inl e
           | Inr uri \<Rightarrow>
               let response = digest_response lib algorithm user realm password nonce cnonce qop_value method uri in
               Inr (''Digest '' @ join_with '', ''
                 ([quoted ''username'' user, quoted ''realm'' realm, quoted ''nonce'' nonce, quoted ''uri'' uri,
                   ''algorithm='' @ algorithm, quoted ''response'' response] @
                  (if qop_value = ''auth'' \<or> is_sess algorithm then [quoted ''cnonce'' cnonce] else []) @
                  (if qop_value = ''auth'' then [''qop='' @ qop_value, ''nc='' @ NC] else []) @
                  (if opaque \<noteq> [] then [quoted ''opaque'' opaque] else [])))))"

subsection \<open>The request\<close>

text \<open>\<open>resp.headers.get(name, "")\<close>: case-insensitive, the first one.\<close>

fun header :: "(string \<times> string) list \<Rightarrow> string \<Rightarrow> string" where
  "header [] n = []"
| "header ((k, v) # hs) n = (if lower k = lower n then v else header hs n)"

definition authorised :: "(string \<times> string) list \<Rightarrow> string \<Rightarrow> (string \<times> string) list" where
  "authorised headers auth_header = dict_set ''Authorization'' auth_header headers"

definition async_digest_request ::
    "hash_lib \<Rightarrow> (string \<Rightarrow> bool) \<Rightarrow> (nat \<Rightarrow> string) \<Rightarrow> server \<Rightarrow> string \<Rightarrow> string \<Rightarrow> string \<Rightarrow> string \<Rightarrow> body \<Rightarrow>
     (string \<times> string) list \<Rightarrow> ('z net_scheme, response) io" where
  "async_digest_request lib netloc_ok cnonces srv method url user password data headers =
     bind_io (send srv (mk_request method url [] headers data)) (\<lambda>first_resp.
       if rs_status first_resp \<noteq> 401 then ret first_resp
       else
         bind_io (lift (rs_read first_resp)) (\<lambda>_.
         let www_auth = header (rs_headers first_resp) ''WWW-Authenticate'' in
         if www_auth = [] then raise (ValueError ''Server returned 401 without WWW-Authenticate header'')
         else
           bind_io (lift (parse_digest_challenge www_auth)) (\<lambda>challenge.
           bind_io (lift (build_digest_header lib netloc_ok (cnonces 0) method url user password challenge)) (\<lambda>auth_header.
           bind_io (send srv (mk_request method url [] (authorised headers auth_header) data)) (\<lambda>second_resp.
             let www_auth2 = header (rs_headers second_resp) ''WWW-Authenticate'' in
             if rs_status second_resp = 401 \<and> www_auth2 \<noteq> [] then
               bind_io (lift (parse_digest_challenge www_auth2)) (\<lambda>challenge2.
                 if lower (get_or challenge2 ''stale'' []) = ''true'' then
                   bind_io (lift (rs_read second_resp)) (\<lambda>_.
                   bind_io (lift (build_digest_header lib netloc_ok (cnonces 1) method url user password challenge2))
                     (\<lambda>auth_header2. send srv (mk_request method url [] (authorised headers auth_header2) data)))
                 else ret second_resp)
             else ret second_resp)))))"

subsection \<open>What a digest request sends\<close>

text \<open>The attempts differ in their Authorization header only.\<close>

definition digest_attempt :: "string \<Rightarrow> string \<Rightarrow> (string \<times> string) list \<Rightarrow> body \<Rightarrow> request \<Rightarrow> bool" where
  "digest_attempt method url headers data rq \<longleftrightarrow>
     (\<exists>a. rq = mk_request method url [] (authorised headers a) data)"

lemma digest_request_hist:
  "\<exists>new. hist (snd (async_digest_request lib ok cn srv method url user password data headers w)) =
       hist w @ mk_request method url [] headers data # new \<and>
     length new \<le> 2 \<and> list_all (digest_attempt method url headers data) new"
  unfolding async_digest_request_def send_def Let_def digest_attempt_def
  by (auto simp: io_defs split: sum.splits)

lemma digest_request_open:
  assumes "srv (hist w) (mk_request method url [] headers data) = Inr r" "rs_status r \<noteq> 401"
  shows "async_digest_request lib ok cn srv method url user password data headers w =
    (Inr r, w\<lparr>hist := hist w @ [mk_request method url [] headers data]\<rparr>)"
  using assms by (simp add: async_digest_request_def send_def io_defs)

subsection \<open>The server's side\<close>

text \<open>
  RFC 7616: the response is recomputed from the directives the header discloses and from the
  password the server holds for the user.
\<close>

definition expected_response :: "hash_lib \<Rightarrow> string \<Rightarrow> string \<Rightarrow> (string, string) dict \<Rightarrow> string" where
  "expected_response lib method password d =
     (let h = (if starts_with ''SHA-256'' (get_or d ''algorithm'' ''MD5'') then h_sha256 lib else h_md5 lib);
          sess = ends_with ''-SESS'' (get_or d ''algorithm'' ''MD5'');
          ha0 = h (get_or d ''username'' [] @ '':'' @ get_or d ''realm'' [] @ '':'' @ password);
          ha1 = (if sess then h (ha0 @ '':'' @ get_or d ''nonce'' [] @ '':'' @ get_or d ''cnonce'' []) else ha0);
          ha2 = h (upper method @ '':'' @ get_or d ''uri'' []) in
      if dict_get d ''qop'' = None then h (ha1 @ '':'' @ get_or d ''nonce'' [] @ '':'' @ ha2)
      else h (ha1 @ '':'' @ get_or d ''nonce'' [] @ '':'' @ get_or d ''nc'' [] @ '':'' @ get_or d ''cnonce'' [] @ '':'' @
              get_or d ''qop'' [] @ '':'' @ ha2))"

definition verifies :: "hash_lib \<Rightarrow> string \<Rightarrow> string \<Rightarrow> string \<Rightarrow> bool" where
  "verifies lib method password auth_header \<longleftrightarrow>
     (case parse_digest_challenge auth_header of
        Inl _ \<Rightarrow> False
      | Inr d \<Rightarrow> dict_get d ''response'' = Some (expected_response lib method password d))"

subsection \<open>The header read back\<close>

lemma rx_fails_grp [simp]: "rx_fails a c \<Longrightarrow> rx_fails (RGrp n a) c"
  by (simp add: rx_fails_def)

lemma digest_param_skip [simp]: "rx_fails DIGEST_PARAM (CHR '','')" "rx_fails DIGEST_PARAM (CHR '' '')"
  by (simp_all add: DIGEST_PARAM_def r_plus_def is_word_def is_alpha_def is_upper_def is_lower_def is_digit_def code_def)

lemma is_word_not_eq: "\<not> is_word (CHR ''='')"
  by (simp add: is_word_def is_alpha_def is_upper_def is_lower_def is_digit_def code_def)

lemma rx_run_key:
  assumes "k \<noteq> []" "\<forall>c \<in> set k. is_word c"
  shows "\<exists>ms. rx_run (RGrp 1 (r_plus (RChr is_word))) (p, k @ CHR ''='' # s, []) =
    (rev k @ p, CHR ''='' # s, [(1, k)]) # ms"
  using rx_run_plus_chr [of k is_word "CHR ''='' # s" 1 p "[]"] assms is_word_not_eq by simp

lemma rx_run_quoted:
  assumes "CHR 0x22 \<notin> set v"
  shows "\<exists>ms. rx_run (RSeq (RGrp 2 (RStar (RChr (\<lambda>c. c \<noteq> CHR 0x22)))) (RChr (\<lambda>c. c = CHR 0x22))) (p, v @ CHR 0x22 # s, g) =
    (CHR 0x22 # rev v @ p, s, (2, v) # g) # ms"
proof -
  obtain ms where "spans (\<lambda>c. c \<noteq> CHR 0x22) (p, v @ CHR 0x22 # s, g) = (rev v @ p, CHR 0x22 # s, g) # ms"
    using spans_all [of v "\<lambda>c. c \<noteq> CHR 0x22" "CHR 0x22 # s" p g] assms by auto
  then show ?thesis by (auto simp: rx_run_star_chr simp del: rx_run.simps(5))
qed

lemma rx_search_quoted:
  assumes "k \<noteq> []" "\<forall>c \<in> set k. is_word c" "CHR 0x22 \<notin> set v"
  shows "rx_search DIGEST_PARAM p (quoted k v @ s) = Some (p, rev (quoted k v) @ p, s, [(2, v), (1, k)])"
proof -
  obtain ms where 1: "rx_run (RGrp 1 (r_plus (RChr is_word))) (p, k @ CHR ''='' # CHR 0x22 # v @ CHR 0x22 # s, []) =
      (rev k @ p, CHR ''='' # CHR 0x22 # v @ CHR 0x22 # s, [(1, k)]) # ms"
    using rx_run_key [OF assms(1,2)] by blast
  obtain ms' where 2: "rx_run (RSeq (RGrp 2 (RStar (RChr (\<lambda>c. c \<noteq> CHR 0x22)))) (RChr (\<lambda>c. c = CHR 0x22)))
      (CHR 0x22 # CHR ''='' # rev k @ p, v @ CHR 0x22 # s, [(1, k)]) =
      (CHR 0x22 # rev v @ CHR 0x22 # CHR ''='' # rev k @ p, s, [(2, v), (1, k)]) # ms'"
    using rx_run_quoted [OF assms(3)] by blast
  show ?thesis
    unfolding DIGEST_PARAM_def
    by (rule rx_search_hit [OF trans [OF rx_run.simps(3)]], unfold quoted_def)
      (simp add: 1 rx_run.simps(4) 2 [unfolded rx_run.simps(3)] del: rx_run.simps(5,6) One_nat_def)
qed

lemma rx_search_token:
  assumes "k \<noteq> []" "\<forall>c \<in> set k. is_word c" "v \<noteq> []" "\<forall>c \<in> set v. is_token_char c" "s = [] \<or> \<not> is_token_char (hd s)"
  shows "rx_search DIGEST_PARAM p ((k @ ''='' @ v) @ s) = Some (p, rev (k @ ''='' @ v) @ p, s, [(3, v), (1, k)])"
proof -
  obtain ms where 1: "rx_run (RGrp 1 (r_plus (RChr is_word))) (p, k @ CHR ''='' # v @ s, []) =
      (rev k @ p, CHR ''='' # v @ s, [(1, k)]) # ms"
    using rx_run_key [OF assms(1,2)] by blast
  obtain ms' where 2: "rx_run (RGrp 3 (r_plus (RChr is_token_char))) (CHR ''='' # rev k @ p, v @ s, [(1, k)]) =
      (rev v @ CHR ''='' # rev k @ p, s, [(3, v), (1, k)]) # ms'"
    using rx_run_plus_chr [OF assms(4,3,5)] by blast
  have "hd v \<noteq> CHR 0x22"
    using assms(3,4) by (cases v) (auto simp: is_token_char_def is_word_def is_alpha_def is_upper_def is_lower_def is_digit_def code_def)
  then obtain c v' where v: "v = c # v'" "c \<noteq> CHR 0x22" using assms(3) by (cases v) auto
  show ?thesis
    unfolding DIGEST_PARAM_def
    by (rule rx_search_hit [OF trans [OF rx_run.simps(3)]])
      (use 1 2 v in \<open>simp add: rx_run.simps(4) del: rx_run.simps(5,6) One_nat_def\<close>)
qed

text \<open>One directive of the header, quoted or not.\<close>

definition directive :: "bool \<times> string \<times> string \<Rightarrow> string" where
  "directive i = (case i of (q, k, v) \<Rightarrow> if q then quoted k v else k @ ''='' @ v)"

definition directive_ok :: "bool \<times> string \<times> string \<Rightarrow> bool" where
  "directive_ok i =
     (case i of (q, k, v) \<Rightarrow>
        k \<noteq> [] \<and> list_all is_word k \<and>
        (if q then CHR 0x22 \<notin> set v else v \<noteq> [] \<and> list_all is_token_char v))"

definition directive_groups :: "bool \<times> string \<times> string \<Rightarrow> char groups" where
  "directive_groups i = (case i of (q, k, v) \<Rightarrow> [(if q then 2 else 3, v), (1, k)])"

definition after_first :: "(bool \<times> string \<times> string) list \<Rightarrow> string" where
  "after_first is = concat (map (\<lambda>i. '', '' @ directive i) is)"

lemma join_directives: "join_with '', '' (map directive (i # is)) = directive i @ after_first is"
  by (induction "is" arbitrary: i) (simp_all add: after_first_def)

lemma after_first_hd: "after_first is = [] \<or> hd (after_first is) = CHR '',''"
  by (cases "is") (simp_all add: after_first_def)

lemma rx_search_directive:
  assumes "directive_ok i" "s = [] \<or> hd s = CHR '',''"
  shows "rx_search DIGEST_PARAM p (directive i @ s) = Some (p, rev (directive i) @ p, s, directive_groups i)"
proof -
  obtain q k v where i: "i = (q, k, v)" by (cases i)
  have "\<not> is_token_char (CHR '','')"
    by (simp add: is_token_char_def is_word_def is_alpha_def is_upper_def is_lower_def is_digit_def code_def)
  with assms rx_search_quoted [of k v p s] rx_search_token [of k v s p] show ?thesis
    by (cases q) (auto simp: i directive_def directive_ok_def directive_groups_def list_all_iff)
qed

lemma directive_nonempty: "directive i \<noteq> []"
  by (cases i) (auto simp: directive_def quoted_def)

lemma finditer_directive:
  assumes "directive_ok i" "s = [] \<or> hd s = CHR '',''"
  shows "rx_finditer DIGEST_PARAM p (directive i @ s) =
    directive_groups i # rx_finditer DIGEST_PARAM (rev (directive i) @ p) s"
  using directive_nonempty [of i]
  by (subst rx_finditer.simps) (simp add: rx_search_directive [OF assms])

lemma finditer_skip:
  "rx_finditer DIGEST_PARAM p ('', '' @ directive i @ s) = rx_finditer DIGEST_PARAM ('' ,'' @ p) (directive i @ s)"
  if "directive_ok i" "s = [] \<or> hd s = CHR '',''"
proof -
  have sk: "rx_search DIGEST_PARAM p ('', '' @ directive i @ s) = rx_search DIGEST_PARAM ('' ,'' @ p) (directive i @ s)"
    using rx_search_skip [of "'', ''" DIGEST_PARAM p "directive i @ s"] by simp
  show ?thesis
    using directive_nonempty [of i]
    by (subst (1 2) rx_finditer.simps) (simp only: sk rx_search_directive [OF that], simp)
qed

lemma finditer_after_first:
  "list_all directive_ok is \<Longrightarrow> rx_finditer DIGEST_PARAM p (after_first is) = map directive_groups is"
proof (induction "is" arbitrary: p)
  case Nil
  have "rx_search DIGEST_PARAM p [] = None"
    by (rule rx_search_none_all) (auto simp: DIGEST_PARAM_def r_plus_def)
  then show ?case by (simp add: after_first_def rx_finditer.simps)
next
  case (Cons i "is")
  then have ok: "directive_ok i" by simp
  have eq: "after_first (i # is) = '', '' @ directive i @ after_first is"
    by (simp add: after_first_def)
  show ?case
    unfolding eq finditer_skip [OF ok after_first_hd] finditer_directive [OF ok after_first_hd]
    using Cons by simp
qed

lemma digest_item_directive:
  "digest_item (directive_groups i) = (lower (fst (snd i)), snd (snd i))"
  by (cases i) (simp add: digest_item_def directive_groups_def group_text_def)

lemma digest_params_directives:
  assumes "list_all directive_ok (i # is)"
  shows "digest_params (join_with '', '' (map directive (i # is))) =
    dict_merge [] (map (\<lambda>i. (lower (fst (snd i)), snd (snd i))) (i # is))"
proof -
  have "directive_ok i" "list_all directive_ok is" using assms by simp_all
  then have "rx_finditer DIGEST_PARAM [] (directive i @ after_first is) = map directive_groups (i # is)"
    by (simp add: finditer_directive [OF _ after_first_hd] finditer_after_first)
  then show ?thesis
    unfolding join_directives digest_params_def by (simp add: digest_item_directive comp_def)
qed

text \<open>No value of a parsed challenge holds a quotation mark.\<close>

lemma token_char_no_quote: "is_token_char c \<Longrightarrow> c \<noteq> CHR 0x22"
  by (auto simp: is_token_char_def is_word_def is_alpha_def is_upper_def is_lower_def is_digit_def code_def)

lemma rx_run_altD: "m' \<in> set (rx_run (RAlt a b) m) \<Longrightarrow> m' \<in> set (rx_run a m) \<or> m' \<in> set (rx_run b m)"
  by simp

lemma digest_param_groups:
  assumes "m \<in> set (rx_run DIGEST_PARAM (q, s, []))"
  shows "CHR 0x22 \<notin> set (snd (digest_item (snd (snd m))))"
proof -
  let ?K = "RGrp 1 (r_plus (RChr is_word))" and ?E = "RChr (\<lambda>c. c = CHR ''='')"
  let ?Q = "RChr (\<lambda>c. c = CHR 0x22)" and ?V = "RGrp 2 (RStar (RChr (\<lambda>c. c \<noteq> CHR 0x22)))"
  let ?T = "RGrp 3 (r_plus (RChr is_token_char))"
  from assms obtain m1 m2 where m1: "m1 \<in> set (rx_run ?K (q, s, []))" and m2: "m2 \<in> set (rx_run ?E m1)"
      and m: "m \<in> set (rx_run (RAlt (RSeq ?Q (RSeq ?V ?Q)) ?T) m2)"
    unfolding DIGEST_PARAM_def by (blast dest: rx_run_seqD)
  have g2: "map_of (snd (snd m2)) 2 = None"
  proof -
    have kg: "keeps_groups (r_plus (RChr is_word))"
      by (auto simp: keeps_groups_def dest: set_rx_run_plus_chr)
    from m1 obtain m0 where "m0 \<in> set (rx_run (r_plus (RChr is_word)) (q, s, []))"
        and eq: "snd (snd m1) = (1, take (length s - length (text_left m0)) s) # snd (snd m0)"
      by auto
    with kg have "snd (snd m0) = []" unfolding keeps_groups_def by fastforce
    moreover have "snd (snd m2) = snd (snd m1)"
      using m2 by (auto split: prod.splits list.splits if_splits)
    ultimately show ?thesis using eq by simp
  qed
  obtain p2 s2 gs where m2_eq: "m2 = (p2, s2, gs)" by (cases m2)
  from rx_run_altD [OF m] consider (a) "m \<in> set (rx_run (RSeq ?Q (RSeq ?V ?Q)) m2)" | (b) "m \<in> set (rx_run ?T m2)"
    by blast
  then show ?thesis
  proof cases
    case a
    then obtain m3 m4 where m3: "m3 \<in> set (rx_run ?Q m2)" and m4: "m4 \<in> set (rx_run ?V m3)" and m': "m \<in> set (rx_run ?Q m4)"
      by (blast dest: rx_run_seqD)
    obtain p3 s3 g3 where m3_eq: "m3 = (p3, s3, g3)" by (cases m3)
    from m4 obtain p4 s4 g4 where c: "(p4, s4, g4) \<in> set (spans (\<lambda>c. c \<noteq> CHR 0x22) (p3, s3, g3))"
        and m4_eq: "snd (snd m4) = (2, take (length s3 - length s4) s3) # g4"
      unfolding m3_eq by (auto simp: rx_run_star_chr simp del: rx_run.simps(5))
    from set_spans [OF c] obtain u where u: "s3 = u @ s4" "\<forall>c \<in> set u. c \<noteq> CHR 0x22" by blast
    have "CHR 0x22 \<notin> set (take (length s3 - length s4) s3)" unfolding u(1) using u(2) by auto
    moreover have "snd (snd m) = snd (snd m4)"
      using m' by (auto split: prod.splits list.splits if_splits)
    ultimately show ?thesis by (simp add: digest_item_def m4_eq)
  next
    case b
    then obtain p3 s3 g3 where c: "(p3, s3, g3) \<in> set (rx_run (r_plus (RChr is_token_char)) (p2, s2, gs))"
        and m_eq: "snd (snd m) = (3, take (length s2 - length s3) s2) # g3"
      unfolding m2_eq by auto
    from set_rx_run_plus_chr [OF c] obtain u where u: "s2 = u @ s3" "\<forall>c \<in> set u. is_token_char c" "g3 = gs" by blast
    have "CHR 0x22 \<notin> set (take (length s2 - length s3) s2)"
      unfolding u(1) using u(2) by (auto dest: token_char_no_quote)
    with u(3) g2 m2_eq show ?thesis by (simp add: digest_item_def group_text_def m_eq)
  qed
qed

lemma finditer_runs:
  "g \<in> set (rx_finditer r p s) \<Longrightarrow> \<exists>q s' m. m \<in> set (rx_run r (q, s', [])) \<and> g = snd (snd m)"
proof (induction s arbitrary: p rule: measure_induct_rule [of length])
  case (less s)
  show ?case
  proof (cases "rx_search r p s")
    case None
    have "rx_finditer r p s = []" by (subst rx_finditer.simps) (simp add: None)
    with less.prems show ?thesis by simp
  next
    case (Some x)
    obtain q p' s' g' where x: "x = (q, p', s', g')" by (cases x)
    have eq: "rx_finditer r p s = g' # (if length s' < length s then rx_finditer r p' s' else [])"
      by (subst rx_finditer.simps) (simp add: Some x)
    with less.prems consider (now) "g = g'" | (later) "length s' < length s" "g \<in> set (rx_finditer r p' s')"
      unfolding eq by (cases "length s' < length s") force+
    then show ?thesis
    proof cases
      case now
      from rx_search_SomeD [OF Some [unfolded x]] obtain s1 where "(p', s', g') \<in> set (rx_run r (q, s1, []))" by blast
      with now show ?thesis by force
    next
      case later
      then show ?thesis by (rule less.IH)
    qed
  qed
qed

lemma digest_params_no_quote:
  assumes "dict_get (digest_params s) k = Some v"
  shows "CHR 0x22 \<notin> set v"
proof -
  have "dict_get (rev (map digest_item (rx_finditer DIGEST_PARAM [] s))) k = Some v"
    using assms unfolding digest_params_def dict_get_merge by (simp add: dict_get_def split: option.splits)
  then have "(k, v) \<in> digest_item ` set (rx_finditer DIGEST_PARAM [] s)"
    by (auto simp: dict_get_def dest: map_of_SomeD)
  then obtain g where "g \<in> set (rx_finditer DIGEST_PARAM [] s)" "(k, v) = digest_item g" by blast
  then have "g \<in> set (rx_finditer DIGEST_PARAM [] s)" "v = snd (digest_item g)" by (metis snd_conv)+
  with finditer_runs [of g DIGEST_PARAM "[]" s] digest_param_groups show ?thesis by blast
qed

lemma challenge_no_quote:
  assumes "parse_digest_challenge www = Inr challenge" "CHR 0x22 \<notin> set d"
  shows "CHR 0x22 \<notin> set (get_or challenge k d)"
proof -
  from assms(1) obtain s where "challenge = digest_params s"
    by (auto simp: parse_digest_challenge_def Let_def split: prod.splits if_splits)
  then show ?thesis using assms(2) digest_params_no_quote [of s k]
    by (auto simp: get_or_def split: option.splits)
qed

subsection \<open>The server accepts the header\<close>

definition known_algorithm :: "string \<Rightarrow> bool" where
  "known_algorithm a \<longleftrightarrow> a = ''MD5'' \<or> a = ''MD5-SESS'' \<or> a = ''SHA-256'' \<or> a = ''SHA-256-SESS''"

definition header_items where
  "header_items user realm nonce uri algorithm response cnonce qop_value opaque =
     [(True, ''username'', user), (True, ''realm'', realm), (True, ''nonce'', nonce), (True, ''uri'', uri),
      (False, ''algorithm'', algorithm), (True, ''response'', response)] @
     (if qop_value = ''auth'' \<or> is_sess algorithm then [(True, ''cnonce'', cnonce)] else []) @
     (if qop_value = ''auth'' then [(False, ''qop'', qop_value), (False, ''nc'', NC)] else []) @
     (if opaque \<noteq> [] then [(True, ''opaque'', opaque)] else [])"

lemma build_digest_header_items:
  assumes "build_digest_header lib ok cnonce method url user password challenge = Inr auth"
  shows "\<exists>nonce uri. dict_get challenge ''nonce'' = Some nonce \<and> digest_uri ok url = Inr uri \<and>
    (let realm = get_or challenge ''realm'' []; algorithm = upper (get_or challenge ''algorithm'' ''MD5'');
         qop_value = digest_qop (get_or challenge ''qop'' []) in
     auth = ''Digest '' @ join_with '', '' (map directive (header_items user realm nonce uri algorithm
       (digest_response lib algorithm user realm password nonce cnonce qop_value method uri) cnonce qop_value
       (get_or challenge ''opaque'' []))))"
  using assms
  by (auto simp: build_digest_header_def header_items_def directive_def Let_def split: option.splits sum.splits)

lemma lower_keys:
  "lower ''username'' = ''username''" "lower ''realm'' = ''realm''" "lower ''nonce'' = ''nonce''"
  "lower ''uri'' = ''uri''" "lower ''algorithm'' = ''algorithm''" "lower ''response'' = ''response''"
  "lower ''cnonce'' = ''cnonce''" "lower ''qop'' = ''qop''" "lower ''nc'' = ''nc''" "lower ''opaque'' = ''opaque''"
  by (simp_all add: lower_def to_lower_def is_upper_def code_def)

lemma word_keys:
  "list_all is_word ''username''" "list_all is_word ''realm''" "list_all is_word ''nonce''" "list_all is_word ''uri''"
  "list_all is_word ''algorithm''" "list_all is_word ''response''" "list_all is_word ''cnonce''" "list_all is_word ''qop''"
  "list_all is_word ''nc''" "list_all is_word ''opaque''" "list_all is_token_char ''auth''" "list_all is_token_char NC"
  "list_all is_token_char ''MD5''" "list_all is_token_char ''MD5-SESS''" "list_all is_token_char ''SHA-256''"
  "list_all is_token_char ''SHA-256-SESS''"
  by (simp_all add: is_token_char_def is_word_def is_alpha_def is_upper_def is_lower_def is_digit_def code_def NC_def)

lemma header_items_ok:
  assumes "known_algorithm algorithm"
    "CHR 0x22 \<notin> set user" "CHR 0x22 \<notin> set realm" "CHR 0x22 \<notin> set nonce" "CHR 0x22 \<notin> set uri"
    "CHR 0x22 \<notin> set response" "CHR 0x22 \<notin> set cnonce" "CHR 0x22 \<notin> set opaque"
  shows "list_all directive_ok (header_items user realm nonce uri algorithm response cnonce qop_value opaque)"
proof -
  have "algorithm \<noteq> [] \<and> list_all is_token_char algorithm"
    using assms(1) word_keys(13-16) by (auto simp: known_algorithm_def)
  moreover have "NC \<noteq> []" by (simp add: NC_def)
  ultimately show ?thesis
    unfolding list_all_iff [of directive_ok]
    using assms(2-8) by (auto simp: header_items_def directive_ok_def word_keys simp del: list.pred_inject)
qed

lemma dict_get_Nil: "dict_get [] k = None"
  by (simp add: dict_get_def)

lemma header_items_lookup:
  fixes user realm nonce uri algorithm response cnonce qop_value opaque
  defines "d \<equiv> dict_merge [] (map (\<lambda>i. (lower (fst (snd i)), snd (snd i)))
    (header_items user realm nonce uri algorithm response cnonce qop_value opaque))"
  shows "dict_get d ''username'' = Some user" "dict_get d ''realm'' = Some realm" "dict_get d ''nonce'' = Some nonce"
    "dict_get d ''uri'' = Some uri" "dict_get d ''algorithm'' = Some algorithm" "dict_get d ''response'' = Some response"
    "dict_get d ''cnonce'' = (if qop_value = ''auth'' \<or> is_sess algorithm then Some cnonce else None)"
    "dict_get d ''qop'' = (if qop_value = ''auth'' then Some qop_value else None)"
    "dict_get d ''nc'' = (if qop_value = ''auth'' then Some NC else None)"
  by (simp_all add: d_def header_items_def dict_get_set dict_get_Nil lower_keys)

text \<open>The request target is made of characters of the URL.\<close>

lemma partition_on_sets:
  "partition_on c s = (a, x, b) \<Longrightarrow> set a \<subseteq> set s \<and> set b \<subseteq> set s"
  by (auto simp: partition_on_def Let_def dest: set_takeWhileD in_set_dropD split: if_splits)

lemma split_scheme_sets: "split_scheme u = (a, b) \<Longrightarrow> set b \<subseteq> set u"
  by (auto simp: split_scheme_def dest: partition_on_sets split: prod.splits if_splits)

lemma split_netloc_sets: "split_netloc u = (a, b) \<Longrightarrow> set b \<subseteq> set u"
  by (auto simp: split_netloc_def dest: set_dropWhileD in_set_dropD split: if_splits)

lemma clean_url_sets: "set (clean_url u) \<subseteq> set u"
  by (auto simp: clean_url_def lstrip_def dest: set_dropWhileD)

lemma drop_params_sets: "set (drop_params p) \<subseteq> set p"
  unfolding drop_params_def Let_def
  by (auto dest!: set_takeWhileD in_set_takeD)

lemma digest_uri_sets:
  assumes "digest_uri ok url = Inr uri"
  shows "set uri \<subseteq> insert (CHR ''?'') (set url)"
proof -
  obtain scheme u where s: "split_scheme (clean_url url) = (scheme, u)" by fastforce
  obtain netloc rest where n: "split_netloc u = (netloc, rest)" by fastforce
  obtain u2 x frag where f: "partition_on (CHR ''#'') rest = (u2, x, frag)" by (cases "partition_on (CHR ''#'') rest")
  obtain path y query where q: "partition_on (CHR ''?'') u2 = (path, y, query)" by (cases "partition_on (CHR ''?'') u2")
  have "set path \<subseteq> set url" "set query \<subseteq> set url"
    using clean_url_sets [of url] split_scheme_sets [OF s] split_netloc_sets [OF n]
      partition_on_sets [OF f] partition_on_sets [OF q] by blast+
  moreover have "set uri \<subseteq> insert (CHR ''?'') (set path \<union> set query)"
    using assms drop_params_sets [of path] s n f q
    by (auto simp: digest_uri_def urlparse_def split: if_splits)
  ultimately show ?thesis by blast
qed

text \<open>C3
  A server that follows RFC 7616 accepts the header: whatever challenge it sent, parsing the
  Authorization header gives back the user name and the server's own nonce, and the response in it
  is the one the server recomputes from the header's directives and the password, for all four
  algorithms, with and without quality of protection.\<close>

theorem digest_header_verifies:
  assumes challenge: "parse_digest_challenge www = Inr challenge"
    and algorithm: "known_algorithm (upper (get_or challenge ''algorithm'' ''MD5''))"
    and built: "build_digest_header lib ok cnonce method url user password challenge = Inr auth"
    and plain: "CHR 0x22 \<notin> set user" "CHR 0x22 \<notin> set url" "CHR 0x22 \<notin> set cnonce"
      "\<forall>x. CHR 0x22 \<notin> set (h_md5 lib x)" "\<forall>x. CHR 0x22 \<notin> set (h_sha256 lib x)"
  shows "verifies lib method password auth \<and>
    (\<exists>d. parse_digest_challenge auth = Inr d \<and> dict_get d ''username'' = Some user \<and>
       dict_get d ''nonce'' = dict_get challenge ''nonce'')"
proof -
  let ?realm = "get_or challenge ''realm'' []" and ?opaque = "get_or challenge ''opaque'' []"
  let ?alg = "upper (get_or challenge ''algorithm'' ''MD5'')" and ?qop = "digest_qop (get_or challenge ''qop'' [])"
  from build_digest_header_items [OF built] obtain nonce uri where
      nonce: "dict_get challenge ''nonce'' = Some nonce" and uri: "digest_uri ok url = Inr uri"
      and auth: "auth = ''Digest '' @ join_with '', '' (map directive (header_items user ?realm nonce uri ?alg
        (digest_response lib ?alg user ?realm password nonce cnonce ?qop method uri) cnonce ?qop ?opaque))"
    by (auto simp: Let_def)
  let ?resp = "digest_response lib ?alg user ?realm password nonce cnonce ?qop method uri"
  let ?items = "header_items user ?realm nonce uri ?alg ?resp cnonce ?qop ?opaque"
  let ?d = "dict_merge [] (map (\<lambda>i. (lower (fst (snd i)), snd (snd i))) ?items)"
  have nq: "CHR 0x22 \<notin> set ?realm" "CHR 0x22 \<notin> set ?opaque" "CHR 0x22 \<notin> set nonce"
    using challenge_no_quote [OF challenge, of "[]"] challenge_no_quote [OF challenge, of "[]" "''nonce''"] nonce
    by (auto simp: get_or_def)
  have "CHR 0x22 \<notin> set uri" using digest_uri_sets [OF uri] plain(2) by auto
  moreover have "CHR 0x22 \<notin> set ?resp"
    using plain(4,5) by (simp add: digest_response_def digest_hash_def Let_def)
  ultimately have ok: "list_all directive_ok ?items"
    using nq plain algorithm by (intro header_items_ok) auto
  obtain i js where items: "?items = i # js" by (cases ?items) (auto simp: header_items_def)
  have params: "digest_params (join_with '', '' (map directive ?items)) = ?d"
    using digest_params_directives [of i js] ok unfolding items by simp
  have scheme: "partition_on (CHR '' '') auth = (''Digest'', '' '', join_with '', '' (map directive ?items))"
    unfolding auth using partition_on_append [of "CHR '' ''" "''Digest''"] by simp
  have lk: "lower (py_strip ''Digest'') = ''digest''"
    by code_simp
  have parsed: "parse_digest_challenge auth = Inr ?d"
    unfolding parse_digest_challenge_def scheme by (simp add: lk params header_items_lookup)
  have "expected_response lib method password ?d = ?resp"
    using algorithm
    by (auto simp: expected_response_def get_or_def header_items_lookup digest_response_def digest_hash_def
        known_algorithm_def is_sess_def colon_join_def Let_def starts_with_def ends_with_def)
  then show ?thesis
    by (simp add: verifies_def parsed header_items_lookup nonce)
qed

text \<open>A run of the theorem: a challenge with realm, nonce and quality of protection.\<close>

definition sample_hashes :: hash_lib where
  "sample_hashes = \<lparr>h_md5 = (\<lambda>s. if s = [] then ''d41d'' else ''9001''), h_sha256 = (\<lambda>s. ''ba78'')\<rparr>"

definition sample_challenge :: string where
  "sample_challenge = ''Digest '' @ join_with '', '' [quoted ''realm'' ''cam'', quoted ''nonce'' ''a1'', quoted ''qop'' ''auth'']"

definition sample_params :: "(string, string) dict" where
  "sample_params = [(''realm'', ''cam''), (''nonce'', ''a1''), (''qop'', ''auth'')]"

definition sample_url :: string where
  "sample_url = ''https://10.0.0.2/rcp.xml?command=0x0d00''"

lemma sample_parsed: "parse_digest_challenge sample_challenge = Inr sample_params"
  by code_simp

lemma sample_built:
  "\<exists>auth. build_digest_header sample_hashes (\<lambda>_. True) ''0011'' ''GET'' sample_url ''cbs-1'' ''pw'' sample_params = Inr auth"
proof -
  have "(case digest_uri (\<lambda>_. True) sample_url of Inr _ \<Rightarrow> True | Inl _ \<Rightarrow> False)" by code_simp
  then obtain uri where "digest_uri (\<lambda>_. True) sample_url = Inr uri"
    by (cases "digest_uri (\<lambda>_. True) sample_url") auto
  then show ?thesis by (simp add: build_digest_header_def sample_params_def dict_get_def Let_def)
qed

theorem digest_header_verifies_witness:
  "\<exists>auth. build_digest_header sample_hashes (\<lambda>_. True) ''0011'' ''GET'' sample_url ''cbs-1'' ''pw'' sample_params = Inr auth \<and>
     verifies sample_hashes ''GET'' ''pw'' auth"
proof -
  obtain auth where a: "build_digest_header sample_hashes (\<lambda>_. True) ''0011'' ''GET'' sample_url ''cbs-1'' ''pw'' sample_params = Inr auth"
    using sample_built by blast
  have "known_algorithm (upper (get_or sample_params ''algorithm'' ''MD5''))" by code_simp
  from digest_header_verifies [OF sample_parsed this a] a show ?thesis
    by (auto simp: sample_hashes_def sample_url_def)
qed

end
