(* ===== verification/RcpLocal.thy ===== *)
theory RcpLocal
  imports AuthUtils
begin

section \<open>RCP on the local network\<close>

text \<open>
  The first half of \<open>rcp.py\<close>: telling an XML envelope from a binary payload, extracting the error
  or the hexadecimal payload of an answer, and the reads and writes a camera takes on its own LAN
  address. A byte string is scanned as its list of 8-bit characters (\<open>chars\<close>). \<open>rcp_answer\<close> is the
  part that the local and the cloud read share.
\<close>

subsection \<open>Envelopes and payloads\<close>

definition is_envelope_space :: "byte \<Rightarrow> bool" where
  "is_envelope_space b \<longleftrightarrow> b = 10 \<or> b = 13 \<or> b = 9 \<or> b = 32"

definition is_xml_envelope :: "bytes option \<Rightarrow> bool" where
  "is_xml_envelope raw =
     (case raw of
        None \<Rightarrow> False
      | Some bs \<Rightarrow>
          if bs = [] then False
          else let stripped = lstrip is_envelope_space bs in stripped = [] \<or> starts_with [60] stripped)"

text \<open>\<open><tag>(class+)</tag>\<close> under \<open>re.IGNORECASE\<close>.\<close>

definition tag_field :: "string \<Rightarrow> (char \<Rightarrow> bool) \<Rightarrow> char rx" where
  "tag_field tag P = r_field (r_lit_ic (''<'' @ tag @ ''>'')) P (r_lit_ic (''</'' @ tag @ ''>''))"

definition err_code :: "bytes \<Rightarrow> string option" where
  "err_code raw = rx_group (tag_field ''err'' (\<lambda>c. \<not> is_ascii_space c)) 1 (chars raw)"

definition payload_hex :: "bytes \<Rightarrow> string option" where
  "payload_hex raw =
     (case rx_group (tag_field ''str'' is_hex) 1 (chars raw) of
        Some h \<Rightarrow> Some h
      | None \<Rightarrow> rx_group (tag_field ''payload'' is_hex) 1 (chars raw))"

text \<open>What an answer without \<open><err>\<close> yields: the decoded payload, the raw bytes of a binary answer, or nothing.\<close>

definition rcp_answer :: "bytes \<Rightarrow> exn + bytes option" where
  "rcp_answer raw =
     (case payload_hex raw of
        Some h \<Rightarrow> (case from_hex h of Inl e \<Rightarrow> Inl e | Inr bs \<Rightarrow> Inr (Some bs))
      | None \<Rightarrow> if raw \<noteq> [] \<and> \<not> starts_with [60] raw then Inr (Some raw) else Inr None)"

subsection \<open>Local read\<close>

definition rcp_params :: "string \<Rightarrow> string \<Rightarrow> string \<Rightarrow> (string \<times> string) list" where
  "rcp_params command direction typ = [(''command'', command), (''direction'', direction), (''type'', typ)]"

definition num_param :: "int \<Rightarrow> (string \<times> string) list" where
  "num_param num = (if num \<noteq> 0 then [(''num'', int_str num)] else [])"

definition local_read_request :: "string \<Rightarrow> string \<Rightarrow> string \<Rightarrow> int \<Rightarrow> request" where
  "local_read_request cam_ip command typ num =
     mk_request ''GET'' (''http://'' @ cam_ip @ ''/rcp.xml'') (rcp_params command ''READ'' typ @ num_param num) [] NoBody"

definition rcp_local_read ::
    "server \<Rightarrow> string \<Rightarrow> string \<Rightarrow> string \<Rightarrow> int \<Rightarrow> ('z net_scheme, bytes option) io" where
  "rcp_local_read srv cam_ip command typ num =
     catch_io
       (bind_io (send srv (local_read_request cam_ip command typ num)) (\<lambda>resp.
          if rs_status resp \<noteq> 200 then ret None
          else bind_io (lift (rs_read resp)) (\<lambda>raw.
            if err_code raw \<noteq> None then ret None else lift (rcp_answer raw))))
       (\<lambda>e. if is_net_error e then ret None else raise e)"

definition rcp_local_read_privacy :: "server \<Rightarrow> string \<Rightarrow> ('z net_scheme, bool option) io" where
  "rcp_local_read_privacy srv cam_ip =
     bind_io (rcp_local_read srv cam_ip ''0x0d00'' ''P_OCTET'' 0) (\<lambda>raw.
       ret (case raw of None \<Rightarrow> None | Some bs \<Rightarrow> if 2 \<le> length bs then Some (bs ! 1 \<noteq> 0) else None))"

subsection \<open>Local write\<close>

definition with_0x :: "string \<Rightarrow> string" where
  "with_0x payload = (if starts_with ''0x'' (lower payload) then payload else ''0x'' @ payload)"

definition local_write_url :: "string \<Rightarrow> string \<Rightarrow> string \<Rightarrow> string \<Rightarrow> int \<Rightarrow> string" where
  "local_write_url cam_ip command payload typ num =
     ''https://'' @ cam_ip @ ''/rcp.xml?'' @
     urlencode (rcp_params command ''WRITE'' typ @ [(''payload'', with_0x payload)] @ num_param num)"

definition write_accepted :: "response \<Rightarrow> ('s, bool) io" where
  "write_accepted resp =
     (if rs_status resp \<noteq> 200 then ret False
      else bind_io (lift (rs_read resp)) (\<lambda>raw. ret (\<not> contains ''<err>'' (lower (chars raw)))))"

text \<open>\<open>creds\<close> are the user and password when both are given and not empty.\<close>

definition rcp_local_write ::
    "hash_lib \<Rightarrow> (string \<Rightarrow> bool) \<Rightarrow> (nat \<Rightarrow> string) \<Rightarrow> server \<Rightarrow> string \<Rightarrow> string \<Rightarrow> string \<Rightarrow> string \<Rightarrow> int \<Rightarrow>
     string option \<Rightarrow> string option \<Rightarrow> ('z net_scheme, bool) io" where
  "rcp_local_write lib netloc_ok cnonces srv cam_ip command payload typ num user password =
     (let url = local_write_url cam_ip command payload typ num in
      catch_io
        (case (user, password) of
           (Some (u # us), Some (p # ps)) \<Rightarrow>
             bind_io (async_digest_request lib netloc_ok cnonces srv ''GET'' url (u # us) (p # ps) NoBody []) write_accepted
         | _ \<Rightarrow> bind_io (send srv (mk_request ''GET'' url [] [] NoBody)) write_accepted)
        (\<lambda>e. if is_net_error e \<or> is_value_error e then ret False else raise e))"

definition privacy_payload :: "bool \<Rightarrow> string" where
  "privacy_payload enabled = (if enabled then ''00010000'' else ''00000000'')"

definition rcp_local_write_privacy ::
    "hash_lib \<Rightarrow> (string \<Rightarrow> bool) \<Rightarrow> (nat \<Rightarrow> string) \<Rightarrow> server \<Rightarrow> string \<Rightarrow> bool \<Rightarrow> string option \<Rightarrow> string option \<Rightarrow>
     ('z net_scheme, bool) io" where
  "rcp_local_write_privacy lib netloc_ok cnonces srv cam_ip enabled user password =
     rcp_local_write lib netloc_ok cnonces srv cam_ip ''0x0d00'' (privacy_payload enabled) ''P_OCTET'' 0 user password"

text \<open>\<open>f"{val:04x}"\<close> of a value that is not negative.\<close>

fun hex_nat :: "nat \<Rightarrow> string" where
  "hex_nat n = (if n < 16 then [hex_digit n] else hex_nat (n div 16) @ [hex_digit (n mod 16)])"

declare hex_nat.simps [simp del]

definition hex04 :: "int \<Rightarrow> string" where
  "hex04 v = (let h = hex_nat (nat v) in replicate (4 - length h) (CHR ''0'') @ h)"

definition clamp_percent :: "int \<Rightarrow> int" where
  "clamp_percent b = max 0 (min 100 b)"

definition rcp_local_write_front_light ::
    "hash_lib \<Rightarrow> (string \<Rightarrow> bool) \<Rightarrow> (nat \<Rightarrow> string) \<Rightarrow> server \<Rightarrow> string \<Rightarrow> int \<Rightarrow> string option \<Rightarrow> string option \<Rightarrow>
     ('z net_scheme, bool) io" where
  "rcp_local_write_front_light lib netloc_ok cnonces srv cam_ip brightness user password =
     rcp_local_write lib netloc_ok cnonces srv cam_ip ''0x0c22'' (hex04 (clamp_percent brightness)) ''T_WORD'' 1 user password"

subsection \<open>Answers with a tag\<close>

text \<open>A pattern that opens with a literal cannot match where the text does not start with it.\<close>

lemma rx_run_lit_ic_iff:
  "rx_run (r_lit_ic l) (p, s, g) \<noteq> [] \<Longrightarrow> starts_with (lower l) (lower s)"
proof (induction l arbitrary: p s)
  case Nil
  then show ?case by (simp add: starts_with_def lower_def)
next
  case (Cons c l)
  then obtain d s' where s: "s = d # s'" by (cases s) auto
  with Cons.prems have "to_lower d = to_lower c" "rx_run (r_lit_ic l) (d # p, s', g) \<noteq> []"
    by (auto split: if_splits)
  with Cons.IH s show ?case by (auto simp: starts_with_def lower_def)
qed

lemma rx_search_lit_ic_none:
  "\<not> contains (lower l) (lower s) \<Longrightarrow> rx_search (RSeq (r_lit_ic l) r) p s = None"
proof (induction s arbitrary: p)
  case Nil
  have "rx_run (r_lit_ic l) (p, [], []) = []"
    using Nil rx_run_lit_ic_iff [of l p "[]" "[]"] by (auto simp: lower_def starts_with_def)
  then show ?case by (subst rx_search.simps) simp
next
  case (Cons c s)
  then have "\<not> starts_with (lower l) (lower (c # s))" "\<not> contains (lower l) (lower s)"
    by (simp_all add: lower_def)
  with rx_run_lit_ic_iff [of l p "c # s" "[]"] have "rx_run (r_lit_ic l) (p, c # s, []) = []" by blast
  with Cons.IH [of "c # p"] \<open>\<not> contains (lower l) (lower s)\<close> show ?case
    by (subst rx_search.simps) simp
qed

lemma rx_search_lit_ic_skip:
  assumes "\<not> contains (lower l) (lower (xs @ butlast l))"
  shows "rx_search (RSeq (r_lit_ic l) r) p (xs @ l @ ys) = rx_search (RSeq (r_lit_ic l) r) (rev xs @ p) (l @ ys)"
  using assms
proof (induction xs arbitrary: p)
  case (Cons c xs)
  have "\<not> starts_with (lower l) (lower (c # xs @ l @ ys))"
  proof
    assume sw: "starts_with (lower l) (lower (c # xs @ l @ ys))"
    have eq: "take (length l) (c # xs @ l @ ys) = take (length l) (c # xs @ butlast l)"
      by (cases l rule: rev_cases) (auto simp: butlast_append)
    have "take (length (lower l)) (lower (c # xs @ l @ ys)) = lower (take (length l) (c # xs @ l @ ys))"
      unfolding lower_def by (simp only: length_map take_map)
    also have "\<dots> = take (length (lower l)) (lower (c # xs @ butlast l))"
      unfolding eq lower_def by (simp only: length_map take_map)
    finally have "starts_with (lower l) (lower (c # xs @ butlast l))"
      using sw by (simp add: starts_with_def)
    with Cons.prems show False by (simp add: lower_def)
  qed
  then have "rx_run (r_lit_ic l) (p, c # xs @ l @ ys, []) = []"
    using rx_run_lit_ic_iff [of l p "c # xs @ l @ ys" "[]"] by auto
  then have "rx_search (RSeq (r_lit_ic l) r) p ((c # xs) @ l @ ys) = rx_search (RSeq (r_lit_ic l) r) (c # p) (xs @ l @ ys)"
    by (simp add: rx_search_miss)
  also have "\<dots> = rx_search (RSeq (r_lit_ic l) r) (rev xs @ c # p) (l @ ys)"
    using Cons.prems by (intro Cons.IH) (simp add: lower_def)
  finally show ?case by simp
qed simp

lemma tag_field_none:
  "\<not> contains (lower (''<'' @ tag @ ''>'')) (lower s) \<Longrightarrow> rx_group (tag_field tag P) 1 s = None"
  unfolding tag_field_def r_field_def rx_group_def by (subst rx_search_lit_ic_none) simp_all

lemma tag_field_group:
  assumes pre: "\<not> contains (lower (''<'' @ tag @ ''>'')) (lower (pre @ ''<'' @ tag))"
    and u: "u \<noteq> []" "\<forall>c \<in> set u. P c" and lt: "\<not> P (CHR ''<'')"
  shows "rx_group (tag_field tag P) 1 (pre @ (''<'' @ tag @ ''>'') @ u @ (''</'' @ tag @ ''>'') @ post) = Some u"
proof -
  let ?o = "''<'' @ tag @ ''>''" and ?c = "''</'' @ tag @ ''>''"
  have "rx_search (tag_field tag P) [] (pre @ ?o @ u @ ?c @ post) =
      rx_search (tag_field tag P) (rev pre @ []) (?o @ u @ ?c @ post)"
    unfolding tag_field_def r_field_def
    by (rule rx_search_lit_ic_skip) (use pre in \<open>simp add: butlast_append\<close>)
  also have "\<dots> = Some (rev pre @ [], rev ?c @ rev u @ rev ?o @ rev pre @ [], post, [(1, u)])"
    unfolding tag_field_def
  proof (rule rx_search_field [OF _ u(2,1)])
    show "rx_run (r_lit_ic ?o) (rev pre @ [], ?o @ u @ ?c @ post, []) = [(rev ?o @ rev pre @ [], u @ ?c @ post, [])]"
      by (rule rx_run_lit_ic)
    show "?c @ post = [] \<or> \<not> P (hd (?c @ post))" using lt by simp
    show "rx_run (r_lit_ic ?c) (rev u @ rev ?o @ rev pre @ [], ?c @ post, [(1, u)]) =
        [(rev ?c @ rev u @ rev ?o @ rev pre @ [], post, [(1, u)])]"
      by (rule rx_run_lit_ic)
  qed
  finally show ?thesis by (simp add: rx_group_def)
qed

lemma tag_field_class:
  "rx_group (tag_field tag P) 1 s = Some u \<Longrightarrow> u \<noteq> [] \<and> (\<forall>c \<in> set u. P c)"
  unfolding tag_field_def by (erule rx_group_field) (rule keeps_groups_lit_ic)+

text \<open>The hexadecimal digits a payload field captures; their number may still be odd.\<close>

lemma payload_hex_Some:
  "payload_hex raw = Some h \<Longrightarrow> h \<noteq> [] \<and> (\<forall>c \<in> set h. is_hex c)"
  unfolding payload_hex_def by (cases "rx_group (tag_field ''str'' is_hex) 1 (chars raw)") (auto dest: tag_field_class simp del: One_nat_def)

lemma rcp_answer_cases:
  "rcp_answer raw =
     (case payload_hex raw of
        Some h \<Rightarrow> if even (length h) then Inr (Some (projr (from_hex h))) else Inl (ValueError ''fromhex'')
      | None \<Rightarrow> Inr (if raw \<noteq> [] \<and> \<not> starts_with [60] raw then Some raw else None))"
proof (cases "payload_hex raw")
  case (Some h)
  with payload_hex_Some [OF Some] from_hex_digits [of h] show ?thesis
    by (auto simp: rcp_answer_def split: if_splits)
qed (simp add: rcp_answer_def)

text \<open>An answer never yields the empty byte string.\<close>

lemma rcp_answer_nonempty: "rcp_answer raw = Inr (Some bs) \<Longrightarrow> bs \<noteq> []"
proof (cases "payload_hex raw")
  case (Some h)
  assume a: "rcp_answer raw = Inr (Some bs)"
  from payload_hex_Some [OF Some] have h: "h \<noteq> []" "\<forall>c \<in> set h. is_hex c" by auto
  from a Some have fh: "from_hex h = Inr bs" by (auto simp: rcp_answer_def split: sum.splits)
  with from_hex_digits [OF h(2)] h(1) have "length bs = length h div 2" "even (length h)"
    by (auto split: if_splits)
  with h(1) show ?thesis by (cases h; cases "tl h") auto
qed (auto simp: rcp_answer_def split: if_splits)

text \<open>An XML answer around hexadecimal data, as the cameras send it.\<close>

definition rcp_xml :: "string \<Rightarrow> string \<Rightarrow> string \<Rightarrow> bytes" where
  "rcp_xml pre h post = b_lit (pre @ ''<str>'' @ h @ ''</str>'' @ post)"

definition plain_xml :: "string \<Rightarrow> string \<Rightarrow> string \<Rightarrow> bool" where
  "plain_xml pre h post \<longleftrightarrow>
     \<not> contains ''<str>'' (lower (pre @ ''<str'')) \<and> \<not> contains ''<err>'' (lower (chars (rcp_xml pre h post)))"

lemma rcp_xml_payload:
  assumes "plain_xml pre h post" "h \<noteq> []" "\<forall>c \<in> set h. is_hex c"
  shows "err_code (rcp_xml pre h post) = None" "payload_hex (rcp_xml pre h post) = Some h"
proof -
  have ls: "lower ''<str>'' = ''<str>''" "lower ''<err>'' = ''<err>''" by code_simp+
  show "err_code (rcp_xml pre h post) = None"
    unfolding err_code_def using tag_field_none [of "''err''"] assms(1) ls by (simp add: plain_xml_def)
  have "\<not> is_hex (CHR ''<'')" by code_simp
  then have "rx_group (tag_field ''str'' is_hex) 1 (pre @ ''<str>'' @ h @ ''</str>'' @ post) = Some h"
    using tag_field_group [of "''str''" pre h is_hex post] assms ls by (simp add: plain_xml_def)
  then show "payload_hex (rcp_xml pre h post) = Some h"
    by (simp add: payload_hex_def rcp_xml_def)
qed

lemma rcp_local_read_xml:
  assumes "srv (hist w) (local_read_request cam_ip command typ num) = Inr r" "rs_status r = 200"
    "rs_read r = Inr (rcp_xml pre h post)" "plain_xml pre h post" "h \<noteq> []" "from_hex h = Inr bs" "\<forall>c \<in> set h. is_hex c"
  shows "rcp_local_read srv cam_ip command typ num w =
    (Inr (Some bs), w\<lparr>hist := hist w @ [local_read_request cam_ip command typ num]\<rparr>)"
  using assms rcp_xml_payload [OF assms(4,5,7)]
  by (simp add: rcp_local_read_def send_def rcp_answer_def io_defs)

subsection \<open>What a write sends\<close>

lemma quote_plus_plain: "list_all is_unreserved s \<Longrightarrow> quote_plus s = s"
  by (induction s) (auto simp: quote_plus_def quote_def is_unreserved_def is_alpha_def is_upper_def is_lower_def is_digit_def code_def)

lemma hex_unreserved: "is_hex c \<Longrightarrow> is_unreserved c"
  by (auto simp: is_hex_def hex_val_def is_unreserved_def is_alpha_def is_upper_def is_lower_def split: if_splits)

text \<open>The URL of a write whose command, type and payload need no quoting.\<close>

lemma local_write_url_plain:
  assumes "list_all is_unreserved command" "list_all is_unreserved typ" "list_all is_hex h"
    "\<not> starts_with ''0x'' (lower h)"
  shows "local_write_url cam_ip command h typ num =
    ''https://'' @ cam_ip @ ''/rcp.xml?command='' @ command @ ''&direction=WRITE&type='' @ typ @ ''&payload=0x'' @ h @
    (if num = 0 then [] else ''&num='' @ quote_plus (int_str num))"
proof -
  have "list_all is_unreserved h" using assms(3) by (auto simp: list_all_iff hex_unreserved)
  moreover have "list_all is_unreserved ''0x''" by code_simp
  ultimately have "quote_plus (''0x'' @ h) = ''0x'' @ h" by (intro quote_plus_plain) simp
  moreover have "quote_plus ''command'' = ''command''" "quote_plus ''direction'' = ''direction''"
      "quote_plus ''WRITE'' = ''WRITE''" "quote_plus ''type'' = ''type''" "quote_plus ''payload'' = ''payload''"
      "quote_plus ''num'' = ''num''" by code_simp+
  ultimately show ?thesis
    using assms by (simp add: local_write_url_def urlencode_def rcp_params_def num_param_def with_0x_def quote_plus_plain)
qed

lemma rcp_local_write_hist:
  "\<exists>new. hist (snd (rcp_local_write lib ok cn srv cam_ip command payload typ num user password w)) =
       hist w @ mk_request ''GET'' (local_write_url cam_ip command payload typ num) [] [] NoBody # new \<and>
     length new \<le> 2 \<and>
     list_all (digest_attempt ''GET'' (local_write_url cam_ip command payload typ num) [] NoBody) new"
proof -
  let ?url = "local_write_url cam_ip command payload typ num"
  have wa: "snd (catch_io (bind_io m write_accepted) h w') = snd (m w')"
    if "\<And>e w. snd (h e w) = w" for m :: "('a net_scheme, response) io" and h w'
    using that by (auto simp: write_accepted_def io_defs split: sum.splits prod.splits)
  have hh: "snd ((\<lambda>e. if is_net_error e \<or> is_value_error e then ret False else raise e) e w') = w'" for e and w' :: "'a net_scheme"
    by (simp add: io_defs)
  have snd_case: "snd (rcp_local_write lib ok cn srv cam_ip command payload typ num user password w) =
      (case (user, password) of
         (Some (u # us), Some (p # ps)) \<Rightarrow> snd (async_digest_request lib ok cn srv ''GET'' ?url (u # us) (p # ps) NoBody [] w)
       | _ \<Rightarrow> snd (send srv (mk_request ''GET'' ?url [] [] NoBody) w))"
    unfolding rcp_local_write_def Let_def
    by (auto simp only: wa [OF hh] split: option.split list.split prod.split)
  show ?thesis
    unfolding snd_case using digest_request_hist
    by (auto simp: send_def split: option.split list.split)
qed

subsection \<open>The dimmer word\<close>

lemma hex_lower_code: "is_hex x \<Longrightarrow> code (to_lower x) < 120"
  by (auto simp: is_hex_def hex_val_def is_digit_def to_lower_def is_upper_def split: if_splits)

lemma hex04_put16:
  assumes "0 \<le> v" "v < 256"
  shows "hex04 v = to_hex (put16 v)"
proof -
  define n where "n = nat v"
  have v: "v = int n" "n < 256" using assms by (auto simp: n_def)
  have u: "unat (word_of_int (int n) :: byte) = n" using v(2) by (simp add: unat_of_nat)
  have z: "hex_digit 0 = CHR ''0''" by code_simp
  have d: "n div 16 < 16" using v(2) by (simp add: less_mult_imp_div_less)
  have "put16 v = [0, word_of_int (int n)]" using v by (simp add: put16_def)
  then have th: "to_hex (put16 v) = [CHR ''0'', CHR ''0'', hex_digit (n div 16), hex_digit (n mod 16)]"
    using u z by simp
  show ?thesis
  proof (cases "n < 16")
    case True
    then have "hex_nat n = [hex_digit n]" by (subst hex_nat.simps) simp
    then show ?thesis unfolding th using True z by (simp add: hex04_def Let_def numeral_3_eq_3 n_def [symmetric])
  next
    case False
    then have "hex_nat n = [hex_digit (n div 16), hex_digit (n mod 16)]"
      using d by (subst hex_nat.simps, subst hex_nat.simps) simp
    then show ?thesis unfolding th by (simp add: hex04_def Let_def numeral_2_eq_2 n_def [symmetric])
  qed
qed

subsection \<open>Properties\<close>

lemma privacy_payload_hex: "list_all is_hex (privacy_payload b)" "\<not> starts_with ''0x'' (lower (privacy_payload b))"
proof -
  have "list_all is_hex (privacy_payload True) \<and> \<not> starts_with ''0x'' (lower (privacy_payload True))" by code_simp
  moreover have "list_all is_hex (privacy_payload False) \<and> \<not> starts_with ''0x'' (lower (privacy_payload False))" by code_simp
  ultimately show "list_all is_hex (privacy_payload b)" "\<not> starts_with ''0x'' (lower (privacy_payload b))"
    by (metis (full_types))+
qed

lemma privacy_payload_bytes: "\<exists>p. from_hex (privacy_payload b) = Inr p \<and> 2 \<le> length p \<and> (p ! 1 \<noteq> 0) = b"
proof -
  have "from_hex (privacy_payload True) = Inr [0, 1, 0, 0]" by code_simp
  moreover have "from_hex (privacy_payload False) = Inr [0, 0, 0, 0]" by code_simp
  ultimately show ?thesis by (cases b; simp only:) simp_all
qed

text \<open>C1
  Privacy over the LAN round-trips: the write puts the mode into the second byte of the payload of
  its first request, and a camera that answers the later read with that payload is reported in
  exactly the mode written.\<close>

theorem privacy_local_roundtrip:
  assumes "srv' (hist w') (local_read_request cam_ip ''0x0d00'' ''P_OCTET'' 0) = Inr r" "rs_status r = 200"
    and "rs_read r = Inr (rcp_xml pre (privacy_payload enabled) post)" "plain_xml pre (privacy_payload enabled) post"
  shows "hist (snd (rcp_local_write_privacy lib ok cn srv cam_ip enabled user password w)) ! length (hist w) =
      mk_request ''GET'' (''https://'' @ cam_ip @ ''/rcp.xml?command=0x0d00&direction=WRITE&type=P_OCTET&payload=0x'' @
        privacy_payload enabled) [] [] NoBody \<and>
    fst (rcp_local_read_privacy srv' cam_ip w') = Inr (Some enabled)"
proof
  have "list_all is_unreserved ''0x0d00''" "list_all is_unreserved ''P_OCTET''" by code_simp+
  then have url: "local_write_url cam_ip ''0x0d00'' (privacy_payload enabled) ''P_OCTET'' 0 =
      ''https://'' @ cam_ip @ ''/rcp.xml?command=0x0d00&direction=WRITE&type=P_OCTET&payload=0x'' @ privacy_payload enabled"
    using local_write_url_plain [OF _ _ privacy_payload_hex] by simp
  show "hist (snd (rcp_local_write_privacy lib ok cn srv cam_ip enabled user password w)) ! length (hist w) =
      mk_request ''GET'' (''https://'' @ cam_ip @ ''/rcp.xml?command=0x0d00&direction=WRITE&type=P_OCTET&payload=0x'' @
        privacy_payload enabled) [] [] NoBody"
    using rcp_local_write_hist [of lib ok cn srv cam_ip "''0x0d00''" "privacy_payload enabled" "''P_OCTET''" 0 user password w]
    by (auto simp: rcp_local_write_privacy_def url)
  have "privacy_payload enabled \<noteq> []" "\<forall>c \<in> set (privacy_payload enabled). is_hex c"
    using privacy_payload_hex(1) [of enabled] by (auto simp: privacy_payload_def list_all_iff)
  moreover obtain p where "from_hex (privacy_payload enabled) = Inr p" and p: "2 \<le> length p" "(p ! 1 \<noteq> 0) = enabled"
    using privacy_payload_bytes [of enabled] by blast
  ultimately have "rcp_local_read srv' cam_ip ''0x0d00'' ''P_OCTET'' 0 w' =
      (Inr (Some p), w'\<lparr>hist := hist w' @ [local_read_request cam_ip ''0x0d00'' ''P_OCTET'' 0]\<rparr>)"
    using assms by (intro rcp_local_read_xml)
  then show "fst (rcp_local_read_privacy srv' cam_ip w') = Inr (Some enabled)"
    using p by (simp add: rcp_local_read_privacy_def bind_io_Inr ret_def)
qed

definition quiet_camera :: "string \<Rightarrow> server" where
  "quiet_camera h = (\<lambda>_ _. Inr ((plain_response 200 [] JNull)\<lparr>rs_read := Inr (rcp_xml ''<rcp>'' h ''</rcp>'')\<rparr>))"

theorem privacy_local_roundtrip_witness:
  "fst (rcp_local_read_privacy (quiet_camera (privacy_payload True)) ''10.0.0.2'' \<lparr>hist = []\<rparr>) = Inr (Some True)"
proof -
  have p: "plain_xml ''<rcp>'' (privacy_payload True) ''</rcp>''" by code_simp
  let ?r = "(plain_response 200 [] JNull)\<lparr>rs_read := Inr (rcp_xml ''<rcp>'' (privacy_payload True) ''</rcp>'')\<rparr>"
  have a: "quiet_camera (privacy_payload True) (hist \<lparr>hist = []\<rparr>) rq = Inr ?r" for rq
    by (simp only: quiet_camera_def)
  have "rs_status ?r = 200" "rs_read ?r = Inr (rcp_xml ''<rcp>'' (privacy_payload True) ''</rcp>'')"
    by (simp_all only: plain_response_def response.simps)
  from privacy_local_roundtrip [where srv' = "quiet_camera (privacy_payload True)" and w' = "\<lparr>hist = []\<rparr>" and
      enabled = True and pre = "''<rcp>''" and post = "''</rcp>''", OF a this p] show ?thesis by blast
qed

text \<open>C2
  The front-light write always carries a legal brightness: whatever integer the caller passes, the
  first request writes the two-byte big-endian word of the value clamped to 0..100, and no request
  of the write goes to another URL.\<close>

theorem front_light_payload:
  "(\<exists>url new. url = ''https://'' @ cam_ip @ ''/rcp.xml?command=0x0c22&direction=WRITE&type=T_WORD&payload=0x'' @
        to_hex (put16 (max 0 (min 100 b))) @ ''&num=1'' \<and>
      hist (snd (rcp_local_write_front_light lib ok cn srv cam_ip b user password w)) =
        hist w @ mk_request ''GET'' url [] [] NoBody # new \<and>
      length new \<le> 2 \<and> list_all (\<lambda>rq. rq_url rq = url \<and> rq_method rq = ''GET'') new)"
proof -
  have c: "0 \<le> clamp_percent b \<and> clamp_percent b \<le> 100" by (simp add: clamp_percent_def)
  then have h: "hex04 (clamp_percent b) = to_hex (put16 (clamp_percent b))" by (intro hex04_put16) auto
  have hx: "list_all is_hex (to_hex (put16 (clamp_percent b)))" by (auto simp: list_all_iff set_to_hex)
  then have "\<not> starts_with ''0x'' (lower (to_hex (put16 (clamp_percent b))))"
  proof -
    have "is_hex x \<Longrightarrow> to_lower x \<noteq> CHR ''x''" for x
      using hex_lower_code [of x] by (auto simp: code_def)
    then have "CHR ''x'' \<notin> set (lower (to_hex (put16 (clamp_percent b))))"
      unfolding lower_def by (metis imageE list.set_map set_to_hex)
    then show ?thesis by (metis in_set_takeD list.set_intros(1) list.set_intros(2) starts_with_def)
  qed
  moreover have "list_all is_unreserved ''0x0c22''" "list_all is_unreserved ''T_WORD''" "quote_plus (int_str 1) = ''1''" by code_simp+
  ultimately have url: "local_write_url cam_ip ''0x0c22'' (hex04 (clamp_percent b)) ''T_WORD'' 1 =
      ''https://'' @ cam_ip @ ''/rcp.xml?command=0x0c22&direction=WRITE&type=T_WORD&payload=0x'' @
        to_hex (put16 (clamp_percent b)) @ ''&num=1''"
    unfolding h using local_write_url_plain [OF _ _ hx] by simp
  obtain new where new: "hist (snd (rcp_local_write_front_light lib ok cn srv cam_ip b user password w)) =
        hist w @ mk_request ''GET'' (local_write_url cam_ip ''0x0c22'' (hex04 (clamp_percent b)) ''T_WORD'' 1) [] [] NoBody # new"
      "length new \<le> 2"
      "list_all (digest_attempt ''GET'' (local_write_url cam_ip ''0x0c22'' (hex04 (clamp_percent b)) ''T_WORD'' 1) [] NoBody) new"
    unfolding rcp_local_write_front_light_def
    using rcp_local_write_hist [of lib ok cn srv cam_ip "''0x0c22''" "hex04 (clamp_percent b)" "''T_WORD''" 1 user password w]
    by blast
  from new(3) have "list_all (\<lambda>rq. rq_url rq = local_write_url cam_ip ''0x0c22'' (hex04 (clamp_percent b)) ''T_WORD'' 1 \<and>
      rq_method rq = ''GET'') new"
    by (rule list.pred_mono_strong) (auto simp: digest_attempt_def mk_request_def)
  with new(1,2) show ?thesis
    unfolding url clamp_percent_def [symmetric] by (intro exI [of _ new] exI conjI) (rule refl)
qed

end
