(* ===== verification/RcpSession.thy ===== *)
theory RcpSession
  imports RcpLocal
begin

section \<open>RCP sessions of the cloud proxy\<close>

text \<open>
  The session part of \<open>rcp.py\<close>: the two-step handshake, the session cache with its lifetime of 300
  seconds, and the read that drops a cached session the proxy rejects. The cache and the strike
  counters of a camera, dictionaries the callers own, extend the traffic record; the monotonic
  clock's reading is an argument. The session lock is the subject of the theory \<open>RcpLock\<close>.
\<close>

record rcp_net = net +
  session_cache :: "string \<rightharpoonup> string \<times> rat"
  cmd_failures :: "string \<rightharpoonup> nat"

subsection \<open>Opening a session\<close>

definition rcp_base_url :: "string \<Rightarrow> string \<Rightarrow> string" where
  "rcp_base_url proxy_host proxy_hash = ''https://'' @ proxy_host @ ''/'' @ proxy_hash @ ''/rcp.xml''"

definition INIT_PAYLOAD :: string where
  "INIT_PAYLOAD = ''0x0102004000000000040000000000000000010000000000000001000000000000''"

definition open_request :: "string \<Rightarrow> request" where
  "open_request base =
     mk_request ''GET'' base
       [(''command'', ''0xff0c''), (''direction'', ''WRITE''), (''type'', ''P_OCTET''), (''payload'', INIT_PAYLOAD)] [] NoBody"

definition ack_request :: "string \<Rightarrow> string \<Rightarrow> request" where
  "ack_request base session_id =
     mk_request ''GET'' base
       [(''command'', ''0xff0d''), (''direction'', ''WRITE''), (''type'', ''P_OCTET''), (''sessionid'', session_id)] [] NoBody"

definition session_id_of :: "string \<Rightarrow> string option" where
  "session_id_of t = rx_group (tag_field ''sessionid'' (\<lambda>c. \<not> is_space c)) 1 t"

definition REJECTED_SESSION :: string where
  "REJECTED_SESSION = ''0x00000000''"

definition net_none :: "exn \<Rightarrow> ('s, 'a option) io" where
  "net_none e = (if is_net_error e then ret None else raise e)"

definition rcp_session :: "server \<Rightarrow> string \<Rightarrow> string \<Rightarrow> ('z net_scheme, string option) io" where
  "rcp_session srv proxy_host proxy_hash =
     (let base = rcp_base_url proxy_host proxy_hash in
      bind_io
        (catch_io
          (bind_io (send srv (open_request base)) (\<lambda>resp.
             if rs_status resp \<noteq> 200 then ret None
             else bind_io (lift (rs_text resp)) (\<lambda>t. ret (Some t))))
          net_none)
        (\<lambda>answer.
           case answer of
             None \<Rightarrow> ret None
           | Some t \<Rightarrow>
               (case session_id_of t of
                  None \<Rightarrow> ret None
                | Some session_id \<Rightarrow>
                    if session_id = REJECTED_SESSION then ret None
                    else
                      bind_io (catch_io (bind_io (send srv (ack_request base session_id)) (\<lambda>_. ret None)) net_none)
                        (\<lambda>_ :: unit option. ret (Some session_id)))))"

subsection \<open>The session cache\<close>

definition SESSION_TTL :: rat where
  "SESSION_TTL = 300"

definition drop_session :: "string \<Rightarrow> 'z rcp_net_scheme \<Rightarrow> 'z rcp_net_scheme" where
  "drop_session proxy_hash w = w\<lparr>session_cache := (session_cache w)(proxy_hash := None)\<rparr>"

definition store_session :: "string \<Rightarrow> string \<Rightarrow> rat \<Rightarrow> 'z rcp_net_scheme \<Rightarrow> 'z rcp_net_scheme" where
  "store_session proxy_hash session_id expires_at w =
     w\<lparr>session_cache := (session_cache w)(proxy_hash \<mapsto> (session_id, expires_at))\<rparr>"

definition open_and_cache :: "server \<Rightarrow> rat \<Rightarrow> string \<Rightarrow> string \<Rightarrow> ('z rcp_net_scheme, string option) io" where
  "open_and_cache srv now proxy_host proxy_hash =
     bind_io (rcp_session srv proxy_host proxy_hash) (\<lambda>new_session_id w.
       case new_session_id of
         None \<Rightarrow> (Inr None, w)
       | Some s \<Rightarrow> (Inr (Some s), if s = [] then w else store_session proxy_hash s (now + SESSION_TTL) w))"

definition get_cached_rcp_session ::
    "server \<Rightarrow> rat \<Rightarrow> string \<Rightarrow> string \<Rightarrow> ('z rcp_net_scheme, string option) io" where
  "get_cached_rcp_session srv now proxy_host proxy_hash = (\<lambda>w.
     case session_cache w proxy_hash of
       None \<Rightarrow> open_and_cache srv now proxy_host proxy_hash w
     | Some (session_id, expires_at) \<Rightarrow>
         if now < expires_at then (Inr (Some session_id), w)
         else open_and_cache srv now proxy_host proxy_hash (drop_session proxy_hash w))"

subsection \<open>Reading\<close>

definition read_request :: "string \<Rightarrow> string \<Rightarrow> string \<Rightarrow> string \<Rightarrow> int \<Rightarrow> request" where
  "read_request rcp_base command session_id typ num =
     mk_request ''GET'' rcp_base (rcp_params command ''READ'' typ @ [(''sessionid'', session_id)] @ num_param num) [] NoBody"

text \<open>\<open>caching\<close> says whether the caller passed its session cache.\<close>

definition drop_cached_session :: "bool \<Rightarrow> string \<Rightarrow> ('z rcp_net_scheme, unit) io" where
  "drop_cached_session caching rcp_base = (\<lambda>w.
     let parts = split_on (CHR ''/'') (rstrip (\<lambda>c. c = CHR ''/'') rcp_base) in
     if caching \<and> 2 \<le> length parts \<and> last parts = ''rcp.xml''
     then (Inr (), drop_session (last (butlast parts)) w) else (Inr (), w))"

definition SESSION_CLOSED :: string where
  "SESSION_CLOSED = ''0x0c0d''"

definition rcp_read ::
    "server \<Rightarrow> string \<Rightarrow> string \<Rightarrow> string \<Rightarrow> string \<Rightarrow> int \<Rightarrow> bool \<Rightarrow> ('z rcp_net_scheme, bytes option) io" where
  "rcp_read srv rcp_base command session_id typ num caching =
     catch_io
       (bind_io (send srv (read_request rcp_base command session_id typ num)) (\<lambda>resp.
          if rs_status resp \<noteq> 200 then
            bind_io (if rejected (rs_status resp) then drop_cached_session caching rcp_base else ret ()) (\<lambda>_. ret None)
          else
            bind_io (lift (rs_read resp)) (\<lambda>raw.
              case err_code raw of
                Some ec \<Rightarrow>
                  bind_io (if lower ec = SESSION_CLOSED then drop_cached_session caching rcp_base else ret ()) (\<lambda>_. ret None)
              | None \<Rightarrow> lift (rcp_answer raw))))
       (\<lambda>e. if is_net_error e \<or> is_value_error e then ret None else raise e)"

subsection \<open>The handshake\<close>

lemma session_id_of_Some:
  "session_id_of t = Some s \<Longrightarrow> s \<noteq> [] \<and> (\<forall>c \<in> set s. \<not> is_space c)"
  unfolding session_id_of_def by (erule tag_field_class)

definition usable_session :: "string \<Rightarrow> bool" where
  "usable_session s \<longleftrightarrow> s \<noteq> [] \<and> s \<noteq> REJECTED_SESSION \<and> (\<forall>c \<in> set s. \<not> is_space c)"

text \<open>The first answer decides; the acknowledgement cannot turn a session into none.\<close>

definition handshake_result :: "response \<Rightarrow> exn + string option" where
  "handshake_result r =
     (if rs_status r \<noteq> 200 then Inr None
      else case rs_text r of
        Inl e \<Rightarrow> if is_net_error e then Inr None else Inl e
      | Inr t \<Rightarrow> (case session_id_of t of None \<Rightarrow> Inr None | Some s \<Rightarrow> Inr (if s = REJECTED_SESSION then None else Some s)))"

lemma rcp_session_cases:
  fixes w :: "'z net_scheme" and host proxy_hash :: string
  defines "base \<equiv> rcp_base_url host proxy_hash"
  shows "rcp_session srv host proxy_hash w =
    (case srv (hist w) (open_request base) of
       Inl e \<Rightarrow> (if is_net_error e then Inr None else Inl e, w\<lparr>hist := hist w @ [open_request base]\<rparr>)
     | Inr r \<Rightarrow>
         (case handshake_result r of
            Inr (Some s) \<Rightarrow>
              (case srv (hist w @ [open_request base]) (ack_request base s) of
                 Inl e \<Rightarrow> if is_net_error e then Inr (Some s) else Inl e
               | Inr _ \<Rightarrow> Inr (Some s),
               w\<lparr>hist := hist w @ [open_request base, ack_request base s]\<rparr>)
          | x \<Rightarrow> (x, w\<lparr>hist := hist w @ [open_request base]\<rparr>)))"
  unfolding rcp_session_def Let_def base_def [symmetric] handshake_result_def net_none_def send_def
  by (cases "srv (hist w) (open_request base)") (auto simp: io_defs split: sum.split option.split)

lemma handshake_usable: "handshake_result r = Inr (Some s) \<Longrightarrow> usable_session s"
  by (auto simp: handshake_result_def usable_session_def dest: session_id_of_Some split: sum.splits option.splits if_splits)

lemma rcp_session_usable:
  "rcp_session srv host proxy_hash w = (Inr (Some s), w') \<Longrightarrow> usable_session s"
  unfolding rcp_session_cases
  by (auto dest: handshake_usable split: sum.splits option.splits if_splits)

text \<open>A handshake sends the opening request and perhaps the acknowledgement, and touches nothing else.\<close>

definition handshake_traffic :: "string \<Rightarrow> request list \<Rightarrow> bool" where
  "handshake_traffic base new \<longleftrightarrow>
     new = [open_request base] \<or> (\<exists>s. new = [open_request base, ack_request base s])"

lemma handshake_traffic_length: "handshake_traffic base new \<Longrightarrow> length new \<in> {1, 2} \<and> new \<noteq> []"
  by (auto simp: handshake_traffic_def)

lemma rcp_session_frame:
  "\<exists>new. snd (rcp_session srv host proxy_hash w) = w\<lparr>hist := hist w @ new\<rparr> \<and>
     handshake_traffic (rcp_base_url host proxy_hash) new"
  unfolding rcp_session_cases handshake_traffic_def
  by (auto split: sum.splits option.splits intro: exI [of _ "[open_request (rcp_base_url host proxy_hash)]"]
      exI [of _ "[open_request (rcp_base_url host proxy_hash), ack_request (rcp_base_url host proxy_hash) s]" for s])

subsection \<open>The cache\<close>

lemma open_and_cache_cases:
  "open_and_cache srv now host proxy_hash w = (r, w') \<Longrightarrow>
     (\<exists>s new. r = Inr (Some s) \<and> usable_session s \<and>
        w' = store_session proxy_hash s (now + SESSION_TTL) (w\<lparr>hist := hist w @ new\<rparr>) \<and> handshake_traffic (rcp_base_url host proxy_hash) new) \<or>
     ((\<nexists>s. r = Inr (Some s)) \<and> (\<exists>new. w' = w\<lparr>hist := hist w @ new\<rparr> \<and> handshake_traffic (rcp_base_url host proxy_hash) new))"
proof -
  assume o: "open_and_cache srv now host proxy_hash w = (r, w')"
  obtain x w1 where x: "rcp_session srv host proxy_hash w = (x, w1)" by fastforce
  from rcp_session_frame [of srv host proxy_hash w] x obtain new
    where new: "w1 = w\<lparr>hist := hist w @ new\<rparr>" "handshake_traffic (rcp_base_url host proxy_hash) new" by auto
  consider (err) e where "x = Inl e" | (none) "x = Inr None" | (some) s where "x = Inr (Some s)"
    by (cases x) (auto intro: option.exhaust)
  then show ?thesis
  proof cases
    case some
    from rcp_session_usable [OF x [unfolded some]] have u: "usable_session s" .
    then have "s \<noteq> []" by (simp add: usable_session_def)
    with o x some have "r = Inr (Some s)" "w' = store_session proxy_hash s (now + SESSION_TTL) w1"
      by (simp_all add: open_and_cache_def bind_io_Inr)
    with u new show ?thesis by blast
  next
    case none
    with o x new show ?thesis by (auto simp: open_and_cache_def bind_io_Inr)
  next
    case err
    with o x new show ?thesis by (auto simp: open_and_cache_def bind_io_Inl)
  qed
qed

lemma session_cache_simps [simp]:
  "session_cache (w\<lparr>hist := h\<rparr>) = session_cache w"
  "session_cache (drop_session k w) = (session_cache w)(k := None)"
  "session_cache (store_session k s e w) = (session_cache w)(k \<mapsto> (s, e))"
  "cmd_failures (drop_session k w) = cmd_failures w"
  "cmd_failures (store_session k s e w) = cmd_failures w"
  "hist (drop_session k w) = hist w"
  "hist (store_session k s e w) = hist w"
  by (simp_all add: drop_session_def store_session_def)

text \<open>What the cache holds at time \<open>t\<close>.\<close>

definition cache_ok :: "rat \<Rightarrow> (string \<rightharpoonup> string \<times> rat) \<Rightarrow> bool" where
  "cache_ok t c \<longleftrightarrow> (\<forall>k s e. c k = Some (s, e) \<longrightarrow> usable_session s \<and> e \<le> t + SESSION_TTL)"

lemma cache_okD: "cache_ok t c \<Longrightarrow> c k = Some (s, e) \<Longrightarrow> usable_session s \<and> e \<le> t + SESSION_TTL"
  by (simp add: cache_ok_def)

lemma cache_ok_empty [simp]: "cache_ok t (\<lambda>_. None)"
  by (simp add: cache_ok_def)

lemma cache_ok_drop [intro]: "cache_ok t c \<Longrightarrow> cache_ok t (c(k := None))"
  by (auto simp: cache_ok_def)

lemma cache_ok_store [intro]: "cache_ok t c \<Longrightarrow> usable_session s \<Longrightarrow> cache_ok t (c(k \<mapsto> (s, t + SESSION_TTL)))"
  by (auto simp: cache_ok_def)

lemma cache_ok_tick: "cache_ok t c \<Longrightarrow> t \<le> t' \<Longrightarrow> cache_ok t' c"
  by (force simp: cache_ok_def)

lemma get_cached_ok:
  assumes "get_cached_rcp_session srv t host k w = (r, w')" "cache_ok t (session_cache w)"
  shows "cache_ok t (session_cache w')"
proof -
  have step: "cache_ok t (session_cache w')"
    if "open_and_cache srv t host k w1 = (r, w')" "cache_ok t (session_cache w1)" for w1
    using open_and_cache_cases [OF that(1)] that(2) by auto
  show ?thesis
  proof (cases "session_cache w k")
    case None
    with assms show ?thesis by (auto simp: get_cached_rcp_session_def intro: step)
  next
    case (Some p)
    obtain s e where p: "p = (s, e)" by fastforce
    show ?thesis
    proof (cases "t < e")
      case True
      with assms Some p show ?thesis by (simp add: get_cached_rcp_session_def)
    next
      case False
      with assms(1) Some p have "open_and_cache srv t host k (drop_session k w) = (r, w')"
        by (simp add: get_cached_rcp_session_def)
      moreover have "cache_ok t (session_cache (drop_session k w))" using assms(2) by auto
      ultimately show ?thesis by (rule step)
    qed
  qed
qed

lemma open_and_cache_frame:
  "\<exists>new. hist (snd (open_and_cache srv t host k w)) = hist w @ new \<and> handshake_traffic (rcp_base_url host k) new \<and>
     cmd_failures (snd (open_and_cache srv t host k w)) = cmd_failures w"
  using open_and_cache_cases [of srv t host k w] by (cases "open_and_cache srv t host k w") auto

lemma get_cached_frame:
  "\<exists>new. hist (snd (get_cached_rcp_session srv t host k w)) = hist w @ new \<and>
     (new = [] \<or> handshake_traffic (rcp_base_url host k) new) \<and>
     cmd_failures (snd (get_cached_rcp_session srv t host k w)) = cmd_failures w"
  using open_and_cache_frame [of srv t host k w] open_and_cache_frame [of srv t host k "drop_session k w"]
  by (auto simp: get_cached_rcp_session_def split: option.split)

subsection \<open>What a read does to the cache\<close>

definition closes_session :: "response \<Rightarrow> bool" where
  "closes_session r \<longleftrightarrow>
     rejected (rs_status r) \<or>
     rs_status r = 200 \<and>
       (\<exists>raw ec. rs_read r = Inr raw \<and> err_code raw = Some ec \<and> lower ec = SESSION_CLOSED)"

lemma drop_cached_session_base:
  assumes "CHR ''/'' \<notin> set proxy_hash"
  shows "drop_cached_session caching (rcp_base_url host proxy_hash) w =
    (Inr (), if caching then drop_session proxy_hash w else w)"
proof -
  have "split_on (CHR ''/'') ''rcp.xml'' = [''rcp.xml'']" by code_simp
  moreover have "rcp_base_url host proxy_hash = (''https://'' @ host) @ CHR ''/'' # proxy_hash @ CHR ''/'' # ''rcp.xml''"
    by (simp add: rcp_base_url_def)
  ultimately have "split_on (CHR ''/'') (rcp_base_url host proxy_hash) =
      split_on (CHR ''/'') (''https://'' @ host) @ [proxy_hash, ''rcp.xml'']"
    by (simp only: split_on_join split_on_none [OF assms]) simp
  moreover have "rstrip (\<lambda>c. c = CHR ''/'') (rcp_base_url host proxy_hash) = rcp_base_url host proxy_hash"
    by (simp add: rstrip_def rcp_base_url_def)
  ultimately show ?thesis
    by (simp add: drop_cached_session_def Let_def butlast_append)
qed

lemma rcp_read_run:
  fixes w :: "'z rcp_net_scheme" and host proxy_hash command session_id tp :: string and num :: int
  assumes "CHR ''/'' \<notin> set proxy_hash"
  defines "base \<equiv> rcp_base_url host proxy_hash"
  defines "rq \<equiv> read_request base command session_id tp num"
  shows "rcp_read srv base command session_id tp num caching w =
    (case srv (hist w) rq of
       Inl e \<Rightarrow> if is_net_error e \<or> is_value_error e then Inr None else Inl e
     | Inr r \<Rightarrow>
         if rs_status r \<noteq> 200 then Inr None
         else (case rs_read r of
             Inl e \<Rightarrow> if is_net_error e \<or> is_value_error e then Inr None else Inl e
           | Inr raw \<Rightarrow>
               if err_code raw \<noteq> None then Inr None
               else (case rcp_answer raw of Inl e \<Rightarrow> Inr None | Inr x \<Rightarrow> Inr x)),
     if caching \<and> (\<exists>r. srv (hist w) rq = Inr r \<and> closes_session r)
     then drop_session proxy_hash (w\<lparr>hist := hist w @ [rq]\<rparr>) else w\<lparr>hist := hist w @ [rq]\<rparr>)"
proof -
  have d: "drop_cached_session caching base = (\<lambda>w. (Inr (), if caching then drop_session proxy_hash w else w))"
    by (intro ext) (simp only: base_def drop_cached_session_base [OF assms(1)])
  have ve: "rcp_answer raw = Inl e \<Longrightarrow> is_value_error e" for raw e
    by (auto simp: rcp_answer_cases split: option.splits if_splits)
  show ?thesis
    unfolding rcp_read_def rq_def [symmetric] d
    by (cases "srv (hist w) rq")
      (auto simp: send_def io_defs closes_session_def rejected_def dest: ve split: sum.split option.split)
qed

text \<open>Whatever the URL and the answer, a read takes at most one entry out of the cache.\<close>

lemma drop_cached_session_cache:
  "\<exists>k. drop_cached_session caching base w \<in> {(Inr (), w), (Inr (), drop_session k w)}"
  by (auto simp: drop_cached_session_def Let_def)

lemma rcp_read_frame:
  "\<exists>k. snd (rcp_read srv base command session_id tp num caching w) \<in>
     {w\<lparr>hist := hist w @ [read_request base command session_id tp num]\<rparr>,
      drop_session k (w\<lparr>hist := hist w @ [read_request base command session_id tp num]\<rparr>)}"
proof -
  let ?w1 = "w\<lparr>hist := hist w @ [read_request base command session_id tp num]\<rparr>"
  obtain k where k: "drop_cached_session caching base ?w1 \<in> {(Inr (), ?w1), (Inr (), drop_session k ?w1)}"
    using drop_cached_session_cache by blast
  have "snd (rcp_read srv base command session_id tp num caching w) \<in> {?w1, drop_session k ?w1}"
    using k unfolding rcp_read_def send_def
    by (auto simp: io_defs split: sum.split option.split)
  then show ?thesis by blast
qed

lemma rcp_read_cache:
  "\<exists>k. session_cache (snd (rcp_read srv base command session_id tp num caching w)) \<in>
     {session_cache w, (session_cache w)(k := None)}"
  using rcp_read_frame [of srv base command session_id tp num caching w] by auto

lemma rcp_read_traffic:
  "hist (snd (rcp_read srv base command session_id tp num caching w)) =
     hist w @ [read_request base command session_id tp num]"
  "cmd_failures (snd (rcp_read srv base command session_id tp num caching w)) = cmd_failures w"
  using rcp_read_frame [of srv base command session_id tp num caching w] by auto

subsection \<open>Reachable states of a shared cache\<close>

text \<open>
  The cache starts empty; then sessions are acquired and commands are read in any order, against
  any answers, while the clock never runs backwards.
\<close>

inductive rcp_reach :: "rat \<Rightarrow> 'z rcp_net_scheme \<Rightarrow> bool" where
  fresh: "session_cache w = (\<lambda>_. None) \<Longrightarrow> rcp_reach t w"
| tick: "rcp_reach t w \<Longrightarrow> t \<le> t' \<Longrightarrow> rcp_reach t' w"
| acquire: "rcp_reach t w \<Longrightarrow> get_cached_rcp_session srv t host k w = (r, w') \<Longrightarrow> rcp_reach t w'"
| read: "rcp_reach t w \<Longrightarrow> rcp_read srv base command session_id tp num caching w = (r, w') \<Longrightarrow> rcp_reach t w'"

lemma rcp_reach_ok: "rcp_reach t w \<Longrightarrow> cache_ok t (session_cache w)"
proof (induction rule: rcp_reach.induct)
  case (fresh w t)
  then show ?case by simp
next
  case (tick t w t')
  then show ?case by (auto intro: cache_ok_tick)
next
  case (acquire t w srv host k r w')
  then show ?case by (auto intro: get_cached_ok)
next
  case (read t w srv base command session_id tp num caching r w')
  obtain k' where "session_cache w' \<in> {session_cache w, (session_cache w)(k' := None)}"
    using rcp_read_cache [of srv base command session_id tp num caching w] read(2) by auto
  then show ?case using read(3) cache_ok_drop [OF read(3)] by (metis insertE singletonD)
qed

lemma get_cached_Some:
  assumes "get_cached_rcp_session srv t host k w = (Inr (Some s), w')"
  shows "(\<exists>e. session_cache w k = Some (s, e) \<and> t < e \<and> w' = w) \<or>
    (usable_session s \<and> session_cache w' = (session_cache w)(k \<mapsto> (s, t + SESSION_TTL)) \<and>
     (\<exists>new. hist w' = hist w @ new \<and> length new \<in> {1, 2}))"
proof -
  have fresh: ?thesis
    if o: "open_and_cache srv t host k w1 = (Inr (Some s), w')"
      and c: "(session_cache w1)(k := None) = (session_cache w)(k := None)" "hist w1 = hist w" for w1
  proof -
    from open_and_cache_cases [OF o] obtain new where new: "usable_session s"
        "handshake_traffic (rcp_base_url host k) new"
        "w' = store_session k s (t + SESSION_TTL) (w1\<lparr>hist := hist w1 @ new\<rparr>)" by auto
    with handshake_traffic_length [OF new(2)] have "usable_session s" "length new \<in> {1, 2}"
        "w' = store_session k s (t + SESSION_TTL) (w1\<lparr>hist := hist w1 @ new\<rparr>)" by simp_all
    moreover have "(session_cache w1)(k \<mapsto> v) = (session_cache w)(k \<mapsto> v)" for v
      using c(1) by (metis fun_upd_upd)
    ultimately show ?thesis using c(2) by auto
  qed
  show ?thesis
  proof (cases "session_cache w k")
    case None
    with assms show ?thesis by (intro fresh [of w]) (simp_all add: get_cached_rcp_session_def)
  next
    case (Some p)
    obtain s' e where p: "p = (s', e)" by fastforce
    show ?thesis
    proof (cases "t < e")
      case True
      with assms Some p show ?thesis by (simp add: get_cached_rcp_session_def)
    next
      case False
      with assms Some p show ?thesis
        by (intro fresh [of "drop_session k w"]) (simp_all add: get_cached_rcp_session_def)
    qed
  qed
qed

subsection \<open>Properties\<close>

text \<open>C5
  A session handed out is usable and young: in every reachable state of the shared cache the
  session id is neither empty nor the proxy's rejection, it was opened at most 300 seconds ago, and
  it either comes from the cache with nothing sent and nothing changed, or from a handshake of one
  or two requests made now.\<close>

theorem session_lifetime:
  assumes "rcp_reach t w" "get_cached_rcp_session srv t host k w = (Inr (Some s), w')"
  shows "usable_session s \<and>
    (\<exists>t0. t0 \<le> t \<and> t < t0 + 300 \<and> session_cache w' k = Some (s, t0 + 300) \<and>
       (w' = w \<or> t0 = t \<and> length (hist w') \<in> {length (hist w) + 1, length (hist w) + 2}))"
  using get_cached_Some [OF assms(2)]
proof (elim disjE exE conjE)
  fix e
  assume e: "session_cache w k = Some (s, e)" "t < e" "w' = w"
  with cache_okD [OF rcp_reach_ok [OF assms(1)]] have "usable_session s" "e \<le> t + 300"
    by (auto simp: SESSION_TTL_def)
  with e show ?thesis by (auto intro!: exI [of _ "e - 300"])
qed (auto simp: SESSION_TTL_def)

definition sample_proxy :: server where
  "sample_proxy = (\<lambda>_ _. Inr (plain_response 200 ''<rcp><sessionid>0x1a</sessionid></rcp>'' JNull))"

definition idle_net :: rcp_net where
  "idle_net = \<lparr>hist = [], session_cache = (\<lambda>_. None), cmd_failures = (\<lambda>_. None)\<rparr>"

lemma sample_session:
  "\<exists>w'. get_cached_rcp_session sample_proxy t ''h'' ''k'' idle_net = (Inr (Some ''0x1a''), w')"
proof -
  have "session_id_of ''<rcp><sessionid>0x1a</sessionid></rcp>'' = Some ''0x1a''" by code_simp
  then have "handshake_result (plain_response 200 ''<rcp><sessionid>0x1a</sessionid></rcp>'' JNull) = Inr (Some ''0x1a'')"
    by (simp add: handshake_result_def plain_response_def REJECTED_SESSION_def)
  then have "fst (rcp_session sample_proxy ''h'' ''k'' idle_net) = Inr (Some ''0x1a'')"
    by (simp add: rcp_session_cases sample_proxy_def)
  then show ?thesis
    by (cases "rcp_session sample_proxy ''h'' ''k'' idle_net")
      (simp add: get_cached_rcp_session_def idle_net_def open_and_cache_def bind_io_Inr)
qed

theorem session_lifetime_witness:
  "\<exists>w'. get_cached_rcp_session sample_proxy 10 ''h'' ''k'' idle_net = (Inr (Some ''0x1a''), w') \<and> usable_session ''0x1a''"
proof -
  obtain w' where g: "get_cached_rcp_session sample_proxy 10 ''h'' ''k'' idle_net = (Inr (Some ''0x1a''), w')"
    using sample_session by blast
  have "rcp_reach 10 idle_net" by (rule rcp_reach.fresh) (simp add: idle_net_def)
  from session_lifetime [OF this g] g show ?thesis by blast
qed

text \<open>
  The cache saves the handshake for 300 seconds and no longer: after a session was opened at time t,
  asking again before t + 300 returns the same id without a request and without touching the state,
  whatever the proxy would answer; from t + 300 on, a new handshake is sent.\<close>

lemma session_ttl:
  assumes "session_cache w k = None" "get_cached_rcp_session srv t host k w = (Inr (Some s), w1)"
  shows "if t' < t + 300 then get_cached_rcp_session srv' t' host k w1 = (Inr (Some s), w1)
    else \<exists>new. new \<noteq> [] \<and> hist (snd (get_cached_rcp_session srv' t' host k w1)) = hist w1 @ new"
proof -
  have c: "session_cache w1 k = Some (s, t + 300)"
    using get_cached_Some [OF assms(2)] assms(1) by (auto simp: SESSION_TTL_def)
  have "\<exists>new. new \<noteq> [] \<and> hist (snd (open_and_cache srv' t' host k (drop_session k w1))) = hist w1 @ new"
    using open_and_cache_cases [of srv' t' host k "drop_session k w1"]
    by (cases "open_and_cache srv' t' host k (drop_session k w1)") (fastforce dest: handshake_traffic_length)
  with c show ?thesis by (simp add: get_cached_rcp_session_def)
qed

lemma session_ttl_instance:
  "\<exists>w1. get_cached_rcp_session sample_proxy 10 ''h'' ''k'' idle_net = (Inr (Some ''0x1a''), w1) \<and>
     get_cached_rcp_session (\<lambda>_ _. Inl TimeoutError) 309 ''h'' ''k'' w1 = (Inr (Some ''0x1a''), w1)"
proof -
  obtain w' where g: "get_cached_rcp_session sample_proxy 10 ''h'' ''k'' idle_net = (Inr (Some ''0x1a''), w')"
    using sample_session by blast
  have "session_cache idle_net ''k'' = None" by (simp add: idle_net_def)
  from session_ttl [OF this g, of 309 "\<lambda>_ _. Inl TimeoutError"] g show ?thesis by auto
qed

text \<open>C24
  A read sends one request, and it drops the cached session of its own proxy hash exactly when the
  caller shares its cache and the proxy rejects the session: the status is 401 or 403, or it is 200
  and the body is an RCP error whose code is 0x0c0d in any case of its letters. Every other entry, and
  the rest of the state but for the one request sent, is left as it was.\<close>

theorem rcp_read_invalidation:
  assumes "CHR ''/'' \<notin> set k"
  shows "snd (rcp_read srv (rcp_base_url host k) command session_id tp num caching w) =
    (let rq = read_request (''https://'' @ host @ ''/'' @ k @ ''/rcp.xml'') command session_id tp num;
         w1 = w\<lparr>hist := hist w @ [rq]\<rparr> in
     if caching \<and>
        (\<exists>r. srv (hist w) rq = Inr r \<and>
           (rs_status r \<in> {401, 403} \<or>
            rs_status r = 200 \<and> (\<exists>raw ec. rs_read r = Inr raw \<and> err_code raw = Some ec \<and> lower ec = ''0x0c0d'')))
     then w1\<lparr>session_cache := (session_cache w)(k := None)\<rparr> else w1)"
proof -
  have closes: "closes_session r \<longleftrightarrow> rs_status r \<in> {401, 403} \<or>
      rs_status r = 200 \<and> (\<exists>raw ec. rs_read r = Inr raw \<and> err_code raw = Some ec \<and> lower ec = ''0x0c0d'')" for r
    by (auto simp: closes_session_def rejected_def SESSION_CLOSED_def)
  have base: "''https://'' @ host @ ''/'' @ k @ ''/rcp.xml'' = rcp_base_url host k" by (simp add: rcp_base_url_def)
  show ?thesis
    unfolding rcp_read_run [OF assms] Let_def snd_conv drop_session_def base closes by (rule if_cong) simp_all
qed

definition invalidation_net :: rcp_net where
  "invalidation_net = idle_net\<lparr>session_cache := [''k'' \<mapsto> (''0x1a'', 300), ''m'' \<mapsto> (''0x2b'', 300)]\<rparr>"

theorem rcp_read_invalidation_witness:
  "session_cache (snd (rcp_read (\<lambda>_ _. Inr (plain_response 403 [] JNull)) (rcp_base_url ''h'' ''k'') ''0x0d00'' ''0x1a'' ''P_OCTET'' 0 True
     invalidation_net)) = [''m'' \<mapsto> (''0x2b'', 300)] \<and>
   session_cache (snd (rcp_read (\<lambda>_ _. Inr (plain_response 200 ''<err>0x0C0D</err>'' JNull)) (rcp_base_url ''h'' ''k'') ''0x0d00'' ''0x1a''
     ''P_OCTET'' 0 True invalidation_net)) = [''m'' \<mapsto> (''0x2b'', 300)]"
proof -
  have k: "CHR ''/'' \<notin> set ''k''" by simp
  have drop: "(session_cache invalidation_net)(''k'' := None) = [''m'' \<mapsto> (''0x2b'', 300)]"
    by (simp add: invalidation_net_def fun_upd_twist)
  have "err_code (b_lit ''<err>0x0C0D</err>'') = Some ''0x0C0D''" "lower ''0x0C0D'' = ''0x0c0d''" by code_simp+
  then have closed: "rs_status (plain_response 200 ''<err>0x0C0D</err>'' JNull) = 200 \<and>
      (\<exists>raw ec. rs_read (plain_response 200 ''<err>0x0C0D</err>'' JNull) = Inr raw \<and> err_code raw = Some ec \<and> lower ec = ''0x0c0d'')"
    by (simp add: plain_response_def)
  show ?thesis
    using closed drop by (simp add: rcp_read_invalidation [OF k] Let_def) (simp add: plain_response_def)
qed

text \<open>
  A read returns bytes or nothing: if requests fail only with network or value errors it never
  raises, and what it returns is never the empty byte string, so callers may test it for truth.\<close>

lemma rcp_read_total:
  assumes "CHR ''/'' \<notin> set k"
    and "\<And>h q e. srv h q = Inl e \<Longrightarrow> is_net_error e \<or> is_value_error e"
    and "\<And>h q r e. srv h q = Inr r \<Longrightarrow> rs_read r = Inl e \<Longrightarrow> is_net_error e \<or> is_value_error e"
  shows "\<exists>x. fst (rcp_read srv (rcp_base_url host k) command session_id tp num caching w) = Inr x \<and> x \<noteq> Some []"
  using assms(2,3)
  by (auto simp: rcp_read_run [OF assms(1)] dest: rcp_answer_nonempty split: sum.split)

lemma rcp_read_total_instance:
  "\<exists>x. fst (rcp_read (\<lambda>_ _. Inl TimeoutError) (rcp_base_url ''h'' ''k'') ''0x0d00'' ''0x1a'' ''P_OCTET'' 0 True idle_net) = Inr x \<and> x \<noteq> Some []"
  by (rule rcp_read_total) simp_all

end
