(* ===== verification/RcpLock.thy ===== *)
theory RcpLock
  imports RcpSession
begin

section \<open>Tasks racing for an RCP session\<close>

text \<open>
  \<open>get_cached_rcp_session\<close> as tasks of one event loop run it: control passes to another task only
  where the code awaits, which is at the lock and at the two requests of the handshake. A step is
  one uninterrupted run between two such points. \<open>locked\<close> says whether the callers share a
  \<open>session_locks\<close> dictionary; the lock of a proxy hash is created on first use and lives in it, so a
  map from hashes to holders is its state. The lock is modelled as giving itself to any waiting
  task. The cache lookup is that of the sequential model.
\<close>

datatype task_pc =
    Ready
  | Opening rat
  | Acking rat string
  | Returned "string option"
  | Raised exn

record race =
  rc_pc :: "nat \<Rightarrow> task_pc"
  rc_lock :: "string \<rightharpoonup> nat"
  rc_cache :: "string \<rightharpoonup> string \<times> rat"
  rc_clock :: rat
  rc_opens :: "(string \<times> rat) list"
  rc_lost :: "string set"

text \<open>
  \<open>rc_opens\<close> lists the handshakes begun, newest first, and \<open>rc_lost\<close> the hashes for which one failed
  or whose session the proxy closed; both only record the run.
\<close>

definition lookup_session :: "rat \<Rightarrow> (string \<rightharpoonup> string \<times> rat) \<Rightarrow> string \<Rightarrow> string option" where
  "lookup_session now cache k =
     (case cache k of None \<Rightarrow> None | Some (s, e) \<Rightarrow> if now < e then Some s else None)"

definition set_pc :: "nat \<Rightarrow> task_pc \<Rightarrow> race \<Rightarrow> race" where
  "set_pc i p s = s\<lparr>rc_pc := (rc_pc s)(i := p)\<rparr>"

definition release :: "bool \<Rightarrow> string \<Rightarrow> race \<Rightarrow> race" where
  "release locked k s = (if locked then s\<lparr>rc_lock := (rc_lock s)(k := None)\<rparr> else s)"

definition take_lock :: "bool \<Rightarrow> string \<Rightarrow> nat \<Rightarrow> race \<Rightarrow> race" where
  "take_lock locked k i s = (if locked then s\<lparr>rc_lock := (rc_lock s)(k \<mapsto> i)\<rparr> else s)"

definition begin_open :: "string \<Rightarrow> race \<Rightarrow> race" where
  "begin_open k s =
     s\<lparr>rc_cache := (rc_cache s)(k := None), rc_opens := (k, rc_clock s) # rc_opens s\<rparr>"

definition finish_open :: "string \<Rightarrow> string \<Rightarrow> rat \<Rightarrow> race \<Rightarrow> race" where
  "finish_open k sid t s = s\<lparr>rc_cache := (rc_cache s)(k \<mapsto> (sid, t + SESSION_TTL))\<rparr>"

definition lose :: "string \<Rightarrow> race \<Rightarrow> race" where
  "lose k s = s\<lparr>rc_lost := insert k (rc_lost s)\<rparr>"

text \<open>\<open>key i\<close> is the proxy hash task \<open>i\<close> asks for.\<close>

inductive race_step :: "bool \<Rightarrow> (nat \<Rightarrow> string) \<Rightarrow> race \<Rightarrow> race \<Rightarrow> bool" for locked key where
  hit: "rc_pc s i = Ready \<Longrightarrow> \<not> locked \<or> rc_lock s (key i) = None \<Longrightarrow>
    lookup_session (rc_clock s) (rc_cache s) (key i) = Some sid \<Longrightarrow>
    race_step locked key s (set_pc i (Returned (Some sid)) s)"
| miss: "rc_pc s i = Ready \<Longrightarrow> \<not> locked \<or> rc_lock s (key i) = None \<Longrightarrow>
    lookup_session (rc_clock s) (rc_cache s) (key i) = None \<Longrightarrow>
    race_step locked key s
      (set_pc i (Opening (rc_clock s)) (take_lock locked (key i) i (begin_open (key i) s)))"
| rejected_open: "rc_pc s i = Opening t \<Longrightarrow>
    race_step locked key s (set_pc i (Returned None) (release locked (key i) (lose (key i) s)))"
| opened: "rc_pc s i = Opening t \<Longrightarrow> usable_session sid \<Longrightarrow>
    race_step locked key s (set_pc i (Acking t sid) s)"
| acked: "rc_pc s i = Acking t sid \<Longrightarrow>
    race_step locked key s (set_pc i (Returned (Some sid)) (release locked (key i) (finish_open (key i) sid t s)))"
| raised: "rc_pc s i = Opening t \<or> rc_pc s i = Acking t sid \<Longrightarrow>
    race_step locked key s (set_pc i (Raised e) (release locked (key i) (lose (key i) s)))"
| closed: "race_step locked key s (lose k (s\<lparr>rc_cache := (rc_cache s)(k := None)\<rparr>))"
| tick: "rc_clock s \<le> t' \<Longrightarrow> race_step locked key s (s\<lparr>rc_clock := t'\<rparr>)"

inductive race_reach :: "bool \<Rightarrow> (nat \<Rightarrow> string) \<Rightarrow> race \<Rightarrow> bool" for locked key where
  init: "rc_pc s = (\<lambda>_. Ready) \<Longrightarrow> rc_lock s = (\<lambda>_. None) \<Longrightarrow> rc_cache s = (\<lambda>_. None) \<Longrightarrow>
    rc_opens s = [] \<Longrightarrow> race_reach locked key s"
| step: "race_reach locked key s \<Longrightarrow> race_step locked key s s' \<Longrightarrow> race_reach locked key s'"

lemmas race_defs = set_pc_def release_def take_lock_def begin_open_def finish_open_def lose_def

subsection \<open>The lookup is the sequential one\<close>

lemma get_cached_lookup:
  "get_cached_rcp_session srv now host k w =
     (case lookup_session now (session_cache w) k of
        Some s \<Rightarrow> (Inr (Some s), w)
      | None \<Rightarrow> open_and_cache srv now host k (if session_cache w k = None then w else drop_session k w))"
  by (auto simp: get_cached_rcp_session_def lookup_session_def split: option.split)

subsection \<open>A call that runs alone\<close>

text \<open>
  The steps implement the sequential model: whatever a call of \<open>get_cached_rcp_session\<close> returns or
  raises with a given peer, a task that finds the lock free has steps to that outcome and to the cache
  the call leaves, and gives the lock back.
\<close>

text \<open>The pc, cache and lock a handshake of task \<open>i\<close> begun at \<open>t\<close> with the cache \<open>c\<close> ends with.\<close>

definition call_end ::
    "nat \<Rightarrow> string \<Rightarrow> rat \<Rightarrow> exn + string option \<Rightarrow> (string \<rightharpoonup> string \<times> rat) \<Rightarrow> race \<Rightarrow> race \<Rightarrow> bool" where
  "call_end i k t r c s s' \<longleftrightarrow>
     rc_pc s' = (rc_pc s)(i := case r of Inl e \<Rightarrow> Raised e | Inr x \<Rightarrow> Returned x) \<and>
     rc_lock s' = (rc_lock s)(k := None) \<and> rc_clock s' = rc_clock s \<and> rc_opens s' = rc_opens s \<and>
     rc_cache s' = (case r of Inr (Some sid) \<Rightarrow> c(k \<mapsto> (sid, t + 300)) | _ \<Rightarrow> c)"

lemma open_steps:
  assumes "rc_pc s i = Opening t" "open_and_cache srv t host (key i) w = (r, w')" "rc_cache s = session_cache w"
    "locked \<or> rc_lock s (key i) = None"
  shows "\<exists>s'. (race_step locked key)\<^sup>*\<^sup>* s s' \<and> call_end i (key i) t r (rc_cache s) s s' \<and> session_cache w' = rc_cache s'"
  using open_and_cache_cases [OF assms(2)]
proof (elim disjE exE conjE)
  fix sid new
  assume r: "r = Inr (Some sid)" and u: "usable_session sid"
    and w': "w' = store_session (key i) sid (t + SESSION_TTL) (w\<lparr>hist := hist w @ new\<rparr>)"
  let ?s1 = "set_pc i (Acking t sid) s"
  let ?s2 = "set_pc i (Returned (Some sid)) (release locked (key i) (finish_open (key i) sid t ?s1))"
  have "race_step locked key s ?s1" by (rule race_step.opened [OF assms(1) u])
  moreover have "race_step locked key ?s1 ?s2" by (rule race_step.acked) (simp add: race_defs)
  ultimately have "(race_step locked key)\<^sup>*\<^sup>* s ?s2" by (intro converse_rtranclp_into_rtranclp [OF _ r_into_rtranclp])
  then show ?thesis using r w' assms(3,4)
    by (intro exI [of _ ?s2]) (auto simp: race_defs store_session_def call_end_def SESSION_TTL_def)
next
  fix new
  assume r: "\<nexists>sid. r = Inr (Some sid)" and w': "w' = w\<lparr>hist := hist w @ new\<rparr>"
  show ?thesis
  proof (cases r)
    case (Inl e)
    let ?s1 = "set_pc i (Raised e) (release locked (key i) (lose (key i) s))"
    have "race_step locked key s ?s1" using assms(1) by (intro race_step.raised) simp
    then have "(race_step locked key)\<^sup>*\<^sup>* s ?s1" by (rule r_into_rtranclp)
    then show ?thesis using Inl w' assms(3,4) by (intro exI [of _ ?s1]) (auto simp: race_defs call_end_def)
  next
    case (Inr x)
    with r have x: "x = None" by (cases x) auto
    let ?s1 = "set_pc i (Returned None) (release locked (key i) (lose (key i) s))"
    have "race_step locked key s ?s1" by (rule race_step.rejected_open [OF assms(1)])
    then have "(race_step locked key)\<^sup>*\<^sup>* s ?s1" by (rule r_into_rtranclp)
    then show ?thesis using Inr x w' assms(3,4) by (intro exI [of _ ?s1]) (auto simp: race_defs call_end_def)
  qed
qed

text \<open>A task that finds an unexpired entry takes one step; any other begins a handshake.\<close>

lemma hit_step:
  assumes "rc_pc s i = Ready" "rc_lock s (key i) = None" "rc_cache s (key i) = Some (sid, e)" "rc_clock s < e"
  shows "race_step locked key s (s\<lparr>rc_pc := (rc_pc s)(i := Returned (Some sid))\<rparr>)"
  using race_step.hit [of s i locked key sid] assms by (simp add: set_pc_def lookup_session_def)

lemma miss_steps:
  assumes "rc_pc s i = Ready" "rc_lock s (key i) = None" "rc_cache s = session_cache w"
    "\<nexists>sid e. rc_cache s (key i) = Some (sid, e) \<and> rc_clock s < e"
    "get_cached_rcp_session srv (rc_clock s) host (key i) w = (r, w')"
  shows "\<exists>s'. (race_step locked key)\<^sup>*\<^sup>* s s' \<and>
    call_end i (key i) (rc_clock s) r ((rc_cache s)(key i := None)) (s\<lparr>rc_opens := (key i, rc_clock s) # rc_opens s\<rparr>) s' \<and>
    session_cache w' = rc_cache s'"
proof -
  have none: "lookup_session (rc_clock s) (session_cache w) (key i) = None"
    using assms(3,4) by (auto simp: lookup_session_def split: option.split)
  let ?s = "set_pc i (Opening (rc_clock s)) (take_lock locked (key i) i (begin_open (key i) s))"
  let ?w = "if session_cache w (key i) = None then w else drop_session (key i) w"
  have step: "race_step locked key s ?s" using assms(1,2,3) none by (intro race_step.miss) simp_all
  have s: "rc_pc ?s i = Opening (rc_clock s)" "rc_cache ?s = session_cache ?w" "locked \<or> rc_lock ?s (key i) = None"
    "rc_cache ?s = (rc_cache s)(key i := None)"
    using assms(2,3) by (auto simp: race_defs drop_session_def)
  have "open_and_cache srv (rc_clock s) host (key i) ?w = (r, w')"
    using assms(5) none by (simp add: get_cached_lookup)
  from open_steps [where s = ?s and i = i and key = key and locked = locked, OF s(1) this s(2,3)] obtain s' where s': "(race_step locked key)\<^sup>*\<^sup>* ?s s'"
    "call_end i (key i) (rc_clock s) r ((rc_cache s)(key i := None)) ?s s'" "session_cache w' = rc_cache s'"
    unfolding s(4) by blast
  from s'(2) have "call_end i (key i) (rc_clock s) r ((rc_cache s)(key i := None)) (s\<lparr>rc_opens := (key i, rc_clock s) # rc_opens s\<rparr>) s'"
    by (auto simp: call_end_def race_defs)
  with s' converse_rtranclp_into_rtranclp [of "race_step locked key", OF step] show ?thesis by blast
qed

subsection \<open>Mutual exclusion\<close>

fun in_handshake :: "task_pc \<Rightarrow> bool" where
  "in_handshake (Opening t) = True"
| "in_handshake (Acking t s) = True"
| "in_handshake _ = False"

fun open_time :: "task_pc \<Rightarrow> rat" where
  "open_time (Opening t) = t"
| "open_time (Acking t s) = t"
| "open_time _ = 0"

definition lock_inv :: "(nat \<Rightarrow> string) \<Rightarrow> race \<Rightarrow> bool" where
  "lock_inv key s \<longleftrightarrow> (\<forall>i. in_handshake (rc_pc s i) \<longleftrightarrow> rc_lock s (key i) = Some i)"

text \<open>Taking the free lock of its hash, and releasing it, keeps one task per hash in a handshake.\<close>

lemma lock_inv_take:
  assumes "lock_inv key s" "rc_lock s (key i) = None" "in_handshake p"
    and "rc_pc s' = (rc_pc s)(i := p)" "rc_lock s' = (rc_lock s)(key i \<mapsto> i)"
  shows "lock_inv key s'"
  unfolding lock_inv_def
proof
  fix j
  have "in_handshake (rc_pc s j) \<longleftrightarrow> rc_lock s (key j) = Some j" using assms(1) by (simp add: lock_inv_def)
  then show "in_handshake (rc_pc s' j) \<longleftrightarrow> rc_lock s' (key j) = Some j"
    using assms(2-5) by (cases "j = i") auto
qed

lemma lock_inv_release:
  assumes "lock_inv key s" "in_handshake (rc_pc s i)" "\<not> in_handshake p"
    and "rc_pc s' = (rc_pc s)(i := p)" "rc_lock s' = (rc_lock s)(key i := None)"
  shows "lock_inv key s'"
  unfolding lock_inv_def
proof
  fix j
  have "in_handshake (rc_pc s j) \<longleftrightarrow> rc_lock s (key j) = Some j" "rc_lock s (key i) = Some i"
    using assms(1,2) by (simp_all add: lock_inv_def)
  then show "in_handshake (rc_pc s' j) \<longleftrightarrow> rc_lock s' (key j) = Some j"
    using assms(3-5) by (cases "j = i") auto
qed

lemma lock_inv_keep:
  assumes "lock_inv key s" "in_handshake p = in_handshake (rc_pc s i)"
    and "rc_pc s' = (rc_pc s)(i := p)" "rc_lock s' = rc_lock s"
  shows "lock_inv key s'"
  using assms by (simp add: lock_inv_def)

lemma lock_inv_step:
  assumes "race_step True key s s'" "lock_inv key s"
  shows "lock_inv key s'"
  using assms(1)
proof (cases rule: race_step.cases)
  case (hit i sid)
  then show ?thesis using assms(2) by (intro lock_inv_keep [OF assms(2), of _ i]) (simp_all add: race_defs)
next
  case (miss i)
  then show ?thesis by (intro lock_inv_take [OF assms(2), of i]) (simp_all add: race_defs)
next
  case (rejected_open i t)
  then show ?thesis by (intro lock_inv_release [OF assms(2), of i]) (simp_all add: race_defs)
next
  case (opened i t sid)
  then show ?thesis by (intro lock_inv_keep [OF assms(2), of _ i]) (simp_all add: race_defs)
next
  case (acked i t sid)
  then show ?thesis by (intro lock_inv_release [OF assms(2), of i]) (simp_all add: race_defs)
next
  case (raised i t sid e)
  then show ?thesis by (intro lock_inv_release [OF assms(2), of i]) (auto simp: race_defs)
next
  case (closed k)
  then show ?thesis using assms(2) by (simp add: lock_inv_def race_defs)
next
  case (tick t')
  then show ?thesis using assms(2) by (simp add: lock_inv_def)
qed

lemma lock_inv_init:
  "rc_pc s = (\<lambda>_. Ready) \<Longrightarrow> rc_lock s = (\<lambda>_. None) \<Longrightarrow> rc_cache s = (\<lambda>_. None) \<Longrightarrow> rc_opens s = [] \<Longrightarrow> lock_inv key s"
  by (simp add: lock_inv_def)

lemma lock_inv_reach: "race_reach True key s \<Longrightarrow> lock_inv key s"
  by (induction rule: race_reach.induct) (rule lock_inv_init, assumption+, rule lock_inv_step)

subsection \<open>Handshakes are spaced by the lifetime of a session\<close>

definition open_times :: "string \<Rightarrow> race \<Rightarrow> rat list" where
  "open_times k s = map snd (filter (\<lambda>p. fst p = k) (rc_opens s))"

fun spaced :: "rat list \<Rightarrow> bool" where
  "spaced (t # u # ts) \<longleftrightarrow> u + SESSION_TTL \<le> t \<and> spaced (u # ts)"
| "spaced _ \<longleftrightarrow> True"

text \<open>
  For a hash without a failure: the handshakes are spaced, one under way is the newest, and the
  newest is under way or its session is cached.
\<close>

definition key_inv :: "(nat \<Rightarrow> string) \<Rightarrow> string \<Rightarrow> race \<Rightarrow> bool" where
  "key_inv key k s \<longleftrightarrow>
     k \<in> rc_lost s \<or>
     spaced (open_times k s) \<and>
     (\<forall>i. key i = k \<longrightarrow> in_handshake (rc_pc s i) \<longrightarrow> (\<exists>ts. open_times k s = open_time (rc_pc s i) # ts)) \<and>
     (\<forall>t ts. open_times k s = t # ts \<longrightarrow>
        (\<exists>i. key i = k \<and> in_handshake (rc_pc s i)) \<or> (\<exists>sid. rc_cache s k = Some (sid, t + SESSION_TTL)))"

lemma key_invD:
  assumes "key_inv key k s" "k \<notin> rc_lost s"
  shows "spaced (open_times k s)"
    "key i = k \<Longrightarrow> in_handshake (rc_pc s i) \<Longrightarrow> \<exists>ts. open_times k s = open_time (rc_pc s i) # ts"
    "open_times k s = t # ts \<Longrightarrow>
       (\<exists>i. key i = k \<and> in_handshake (rc_pc s i)) \<or> (\<exists>sid. rc_cache s k = Some (sid, t + SESSION_TTL))"
  using assms unfolding key_inv_def by blast+

text \<open>A step at another hash changes nothing for this one.\<close>

lemma key_inv_other:
  assumes "key_inv key k s" "key i \<noteq> k" "rc_pc s' = (rc_pc s)(i := p)" "rc_cache s' k = rc_cache s k"
    "open_times k s' = open_times k s" "k \<in> rc_lost s' \<longleftrightarrow> k \<in> rc_lost s"
  shows "key_inv key k s'"
proof -
  have "rc_pc s' j = rc_pc s j" if "key j = k" for j using assms(2,3) that by auto
  then have "(\<forall>j. key j = k \<longrightarrow> in_handshake (rc_pc s' j) \<longrightarrow> (\<exists>ts. open_times k s = open_time (rc_pc s' j) # ts)) \<longleftrightarrow>
      (\<forall>j. key j = k \<longrightarrow> in_handshake (rc_pc s j) \<longrightarrow> (\<exists>ts. open_times k s = open_time (rc_pc s j) # ts))"
    "(\<exists>j. key j = k \<and> in_handshake (rc_pc s' j)) \<longleftrightarrow> (\<exists>j. key j = k \<and> in_handshake (rc_pc s j))"
    by auto
  then show ?thesis using assms(1) unfolding key_inv_def assms(4,5,6) by simp
qed

text \<open>A step that changes only the program counter of a task, not whether and since when it is in a handshake.\<close>

lemma key_inv_same:
  assumes "key_inv key k s" "rc_pc s' = (rc_pc s)(i := p)" "in_handshake p = in_handshake (rc_pc s i)"
    "in_handshake p \<longrightarrow> open_time p = open_time (rc_pc s i)"
    "rc_cache s' = rc_cache s" "rc_opens s' = rc_opens s" "rc_lost s' = rc_lost s"
  shows "key_inv key k s'"
proof -
  have "in_handshake (rc_pc s' j) = in_handshake (rc_pc s j)"
    "in_handshake (rc_pc s' j) \<longrightarrow> open_time (rc_pc s' j) = open_time (rc_pc s j)" for j
    using assms(2-4) by auto
  then show ?thesis using assms(1) unfolding key_inv_def open_times_def assms(5,6,7) by metis
qed

lemma key_inv_begin:
  assumes kinv: "key_inv key (key i) s" and linv: "lock_inv key s" and free: "rc_lock s (key i) = None"
    and none: "lookup_session (rc_clock s) (rc_cache s) (key i) = None"
    and s': "rc_pc s' = (rc_pc s)(i := Opening (rc_clock s))" "rc_opens s' = (key i, rc_clock s) # rc_opens s"
      "rc_lost s' = rc_lost s"
  shows "key_inv key (key i) s'"
proof (cases "key i \<in> rc_lost s")
  case True
  then show ?thesis using s' by (simp add: key_inv_def)
next
  case False
  have idle: "\<not> in_handshake (rc_pc s j)" if "key j = key i" for j
  proof
    assume "in_handshake (rc_pc s j)"
    with linv have "rc_lock s (key j) = Some j" by (simp add: lock_inv_def)
    with that free show False by simp
  qed
  have times: "open_times (key i) s' = rc_clock s # open_times (key i) s"
    using s'(2) by (simp add: open_times_def)
  have "spaced (open_times (key i) s')"
  proof (cases "open_times (key i) s")
    case Nil
    then show ?thesis by (simp add: times)
  next
    case (Cons t ts)
    with key_invD(3) [OF kinv False] idle obtain sid where "rc_cache s (key i) = Some (sid, t + SESSION_TTL)" by blast
    with none have "t + SESSION_TTL \<le> rc_clock s" by (auto simp: lookup_session_def split: if_splits)
    with Cons key_invD(1) [OF kinv False] show ?thesis by (simp add: times)
  qed
  moreover have "\<exists>ts. rc_clock s # open_times (key i) s = open_time (rc_pc s' j) # ts"
    if "key j = key i" "in_handshake (rc_pc s' j)" for j
  proof -
    from idle [OF that(1)] that(2) s'(1) have "j = i" by (cases "j = i") auto
    then show ?thesis by (simp add: s'(1))
  qed
  moreover have "key i = key i \<and> in_handshake (rc_pc s' i)" by (simp add: s'(1))
  ultimately show ?thesis unfolding key_inv_def times by blast
qed

lemma key_inv_finish:
  assumes kinv: "key_inv key (key i) s" and linv: "lock_inv key s" and pc: "rc_pc s i = Acking t sid"
    and s': "rc_pc s' = (rc_pc s)(i := Returned (Some sid))" "rc_opens s' = rc_opens s" "rc_lost s' = rc_lost s"
      "rc_cache s' (key i) = Some (sid, t + SESSION_TTL)"
  shows "key_inv key (key i) s'"
proof (cases "key i \<in> rc_lost s")
  case True
  then show ?thesis using s' by (simp add: key_inv_def)
next
  case False
  obtain ts where times: "open_times (key i) s = t # ts"
    using key_invD(2) [OF kinv False, of i] pc by auto
  have "open_times (key i) s' = open_times (key i) s" by (simp add: open_times_def s'(2))
  moreover have "\<not> in_handshake (rc_pc s' j)" if "key j = key i" for j
  proof (cases "j = i")
    case True
    then show ?thesis by (simp add: s'(1))
  next
    case ne: False
    have "rc_lock s (key i) = Some i" using linv pc unfolding lock_inv_def by (metis in_handshake.simps(2))
    then show ?thesis using ne that linv s'(1) by (auto simp: lock_inv_def)
  qed
  ultimately show ?thesis
    using key_invD(1) [OF kinv False] times s'(4) unfolding key_inv_def by auto
qed

lemma key_inv_step:
  assumes "race_step True key s s'" "lock_inv key s" "key_inv key k s"
  shows "key_inv key k s'"
  using assms(1)
proof (cases rule: race_step.cases)
  case (hit i sid)
  then show ?thesis by (intro key_inv_same [OF assms(3), of _ i "Returned (Some sid)"]) (simp_all add: race_defs)
next
  case (miss i)
  show ?thesis
  proof (cases "key i = k")
    case True
    with miss assms show ?thesis by (auto intro!: key_inv_begin [of key i s] simp: race_defs)
  next
    case False
    with miss show ?thesis by (intro key_inv_other [OF assms(3), of i]) (simp_all add: race_defs open_times_def)
  qed
next
  case (rejected_open i t)
  show ?thesis
  proof (cases "key i = k")
    case True
    with rejected_open show ?thesis by (simp add: key_inv_def race_defs)
  next
    case False
    with rejected_open show ?thesis by (intro key_inv_other [OF assms(3), of i]) (simp_all add: race_defs open_times_def)
  qed
next
  case (opened i t sid)
  then show ?thesis by (intro key_inv_same [OF assms(3), of _ i "Acking t sid"]) (simp_all add: race_defs)
next
  case (acked i t sid)
  show ?thesis
  proof (cases "key i = k")
    case True
    with acked assms show ?thesis by (auto intro!: key_inv_finish [of key i s t sid] simp: race_defs)
  next
    case False
    with acked show ?thesis by (intro key_inv_other [OF assms(3), of i]) (simp_all add: race_defs open_times_def)
  qed
next
  case (raised i t sid e)
  show ?thesis
  proof (cases "key i = k")
    case True
    with raised show ?thesis by (simp add: key_inv_def race_defs)
  next
    case False
    with raised show ?thesis by (intro key_inv_other [OF assms(3), of i]) (simp_all add: race_defs open_times_def)
  qed
next
  case (closed k')
  then show ?thesis using assms(3) by (cases "k' = k") (simp_all add: key_inv_def race_defs open_times_def)
next
  case (tick t')
  then show ?thesis using assms(3) by (simp add: key_inv_def open_times_def)
qed

lemma key_inv_reach: "race_reach True key s \<Longrightarrow> key_inv key k s"
proof (induction rule: race_reach.induct)
  case (init s)
  then show ?case by (simp add: key_inv_def open_times_def)
next
  case (step s s')
  then show ?case using key_inv_step lock_inv_reach by blast
qed

subsection \<open>Properties\<close>

text \<open>C6
  With a shared lock dictionary the proxy never sees two handshakes for one proxy hash at once:
  in every reachable state, two tasks between the first request of a handshake and its end ask for
  different hashes, whatever the order in which the event loop runs the tasks.\<close>

theorem handshake_exclusive:
  assumes "race_reach True key s" "in_handshake (rc_pc s i)" "in_handshake (rc_pc s j)" "key i = key j"
  shows "i = j"
  using lock_inv_reach [OF assms(1)] assms(2-4) by (auto simp: lock_inv_def)

definition idle_race :: race where
  "idle_race = \<lparr>rc_pc = (\<lambda>_. Ready), rc_lock = (\<lambda>_. None), rc_cache = (\<lambda>_. None), rc_clock = 0, rc_opens = [], rc_lost = {}\<rparr>"

definition one_open :: "bool \<Rightarrow> race" where
  "one_open locked = set_pc 0 (Opening 0) (take_lock locked ''k'' 0 (begin_open ''k'' idle_race))"

lemma one_open_reach: "race_reach locked (\<lambda>_. ''k'') (one_open locked)"
proof (rule race_reach.step)
  show "race_reach locked (\<lambda>_. ''k'') idle_race" by (rule race_reach.init) (simp_all add: idle_race_def)
  show "race_step locked (\<lambda>_. ''k'') idle_race (one_open locked)"
    using race_step.miss [of idle_race 0 locked "\<lambda>_. ''k''"]
    by (simp add: one_open_def idle_race_def lookup_session_def)
qed

theorem handshake_exclusive_witness:
  "{j. in_handshake (rc_pc (one_open True) j)} = {0}"
proof -
  have h: "in_handshake (rc_pc (one_open True) 0)" by (simp add: one_open_def race_defs)
  with handshake_exclusive [OF one_open_reach this] show ?thesis by blast
qed

text \<open>
  Without the lock dictionary the guard is gone: two tasks that find the cache empty are both in a
  handshake for the same proxy hash in some reachable state.\<close>

lemma unlocked_race:
  "\<exists>s. race_reach False (\<lambda>_. ''k'') s \<and> in_handshake (rc_pc s 0) \<and> in_handshake (rc_pc s 1)"
proof -
  let ?s = "set_pc 1 (Opening 0) (take_lock False ''k'' 1 (begin_open ''k'' (one_open False)))"
  have "race_step False (\<lambda>_. ''k'') (one_open False) ?s"
    using race_step.miss [of "one_open False" 1 False "\<lambda>_. ''k''"]
    by (simp add: one_open_def idle_race_def lookup_session_def race_defs)
  with one_open_reach have "race_reach False (\<lambda>_. ''k'') ?s" by (rule race_reach.step)
  moreover have "in_handshake (rc_pc ?s 0)" "in_handshake (rc_pc ?s 1)" by (simp_all add: one_open_def race_defs)
  ultimately show ?thesis by blast
qed

text \<open>C7
  One handshake serves everybody for 300 seconds: under the lock, as long as no handshake for a
  proxy hash failed and the proxy closed none of its sessions, any two handshakes begun for it are
  at least 300 seconds apart, however many tasks ask and however they interleave.\<close>

theorem handshakes_spaced:
  assumes "race_reach True key s" "k \<notin> rc_lost s"
  shows "sorted_wrt (\<lambda>newer older. older + 300 \<le> newer) (open_times k s)"
proof -
  have "spaced ts \<Longrightarrow> sorted_wrt (\<lambda>newer older. older + 300 \<le> newer) ts" for ts
    by (induction ts rule: spaced.induct) (force simp: SESSION_TTL_def)+
  then show ?thesis using key_invD(1) [OF key_inv_reach [OF assms(1)] assms(2)] by blast
qed

theorem handshakes_spaced_witness:
  "sorted_wrt (\<lambda>newer older. older + 300 \<le> newer) (open_times ''k'' (one_open True)) \<and> open_times ''k'' (one_open True) = [0]"
proof -
  have "''k'' \<notin> rc_lost (one_open True)" by (simp add: one_open_def race_defs idle_race_def)
  from handshakes_spaced [OF one_open_reach this] show ?thesis
    by (simp add: one_open_def race_defs idle_race_def open_times_def)
qed

text \<open>C8
  The interleaving model contains the sequential one. Take any state in which a task has not begun and
  the lock of its hash is free, and a call of get_cached_rcp_session on the same cache at the same time.
  If the cache has an entry for the hash that expires later than now, the call returns its session and
  changes nothing, and the task has a step that only sets its result. Otherwise the task has steps of
  its own to the call's outcome, value or exception: one handshake has begun, no lock and no other task
  has changed, and both caches are the old one without the entry or, when the call returned a session,
  with that session for the next 300 seconds.\<close>

theorem race_refines_call:
  assumes "rc_pc s i = Ready" "rc_lock s k = None" "key i = k" "rc_cache s = session_cache w" "rc_clock s = t"
    "get_cached_rcp_session srv t host k w = (r, w')"
  shows "(\<exists>sid e. rc_cache s k = Some (sid, e) \<and> t < e \<and> r = Inr (Some sid) \<and> w' = w \<and>
      race_step locked key s (s\<lparr>rc_pc := (rc_pc s)(i := Returned (Some sid))\<rparr>)) \<or>
    ((case rc_cache s k of None \<Rightarrow> True | Some (sid, e) \<Rightarrow> e \<le> t) \<and>
     (\<exists>s'. (race_step locked key)\<^sup>*\<^sup>* s s' \<and>
        rc_pc s' = (rc_pc s)(i := case r of Inl e \<Rightarrow> Raised e | Inr x \<Rightarrow> Returned x) \<and>
        rc_lock s' = rc_lock s \<and> rc_clock s' = t \<and> rc_opens s' = (k, t) # rc_opens s \<and>
        rc_cache s' = (case r of Inr (Some sid) \<Rightarrow> (rc_cache s)(k \<mapsto> (sid, t + 300)) | _ \<Rightarrow> (rc_cache s)(k := None)) \<and>
        session_cache w' = rc_cache s'))"
proof (cases "\<exists>sid e. rc_cache s k = Some (sid, e) \<and> t < e")
  case True
  then obtain sid e where c: "rc_cache s k = Some (sid, e)" "t < e" by blast
  with assms(4,6) have "r = Inr (Some sid)" "w' = w" by (simp_all add: get_cached_rcp_session_def)
  moreover have "race_step locked key s (s\<lparr>rc_pc := (rc_pc s)(i := Returned (Some sid))\<rparr>)"
    using c assms(1-3,5) by (intro hit_step) simp_all
  ultimately show ?thesis using c by blast
next
  case False
  then have e: "case rc_cache s k of None \<Rightarrow> True | Some (sid, e) \<Rightarrow> e \<le> t"
    by (auto split: option.split)
  from False have "\<nexists>sid e. rc_cache s (key i) = Some (sid, e) \<and> rc_clock s < e"
    using assms(3,5) by simp
  moreover have "rc_lock s (key i) = None" "get_cached_rcp_session srv (rc_clock s) host (key i) w = (r, w')"
    using assms(2,3,5,6) by simp_all
  ultimately obtain s' where s': "(race_step locked key)\<^sup>*\<^sup>* s s'" "session_cache w' = rc_cache s'"
    "call_end i k t r ((rc_cache s)(k := None)) (s\<lparr>rc_opens := (k, t) # rc_opens s\<rparr>) s'"
    using miss_steps [where s = s and i = i and key = key and locked = locked, OF assms(1) _ assms(4)]
    unfolding assms(3,5) by blast
  from s'(3) have "rc_pc s' = (rc_pc s)(i := case r of Inl e \<Rightarrow> Raised e | Inr x \<Rightarrow> Returned x)"
    "rc_lock s' = rc_lock s" "rc_clock s' = t" "rc_opens s' = (k, t) # rc_opens s"
    "rc_cache s' = (case r of Inr (Some sid) \<Rightarrow> (rc_cache s)(k \<mapsto> (sid, t + 300)) | _ \<Rightarrow> (rc_cache s)(k := None))"
    using assms(2,5) by (auto simp: call_end_def split: sum.split option.split)
  with s'(1,2) e show ?thesis by blast
qed

theorem race_refines_call_witness:
  "\<exists>s'. (race_step True (\<lambda>_. ''k''))\<^sup>*\<^sup>* (idle_race\<lparr>rc_clock := 10\<rparr>) s' \<and> rc_pc s' 0 = Returned (Some ''0x1a'') \<and>
     rc_cache s' = [''k'' \<mapsto> (''0x1a'', 310)] \<and> rc_lock s' ''k'' = None"
proof -
  let ?s = "idle_race\<lparr>rc_clock := 10\<rparr>"
  obtain w' where g: "get_cached_rcp_session sample_proxy 10 ''h'' ''k'' idle_net = (Inr (Some ''0x1a''), w')"
    using sample_session by blast
  have s: "rc_pc ?s 0 = Ready" "rc_lock ?s ''k'' = None" "(\<lambda>_. ''k'') (0 :: nat) = ''k''" "rc_cache ?s = session_cache idle_net"
    "rc_clock ?s = 10"
    by (simp_all add: idle_race_def idle_net_def)
  have "rc_cache ?s = (\<lambda>_. None)" "rc_lock ?s = (\<lambda>_. None)" by (simp_all add: idle_race_def)
  with race_refines_call [of ?s 0 "''k''" "\<lambda>_. ''k''", OF s g, of True] show ?thesis by fastforce
qed

end
