(* ===== verification/Utext.thy ===== *)
theory Utext
  imports Bytes
begin

section \<open>Unicode text and UTF-8\<close>

text \<open>
  Text that was decoded from bytes of a camera is a list of code points. This theory holds the two
  directions of UTF-8 as Python has them, \<open>decode("utf-8", errors="replace")\<close>, where every maximal
  prefix of an ill-formed sequence becomes one replacement character, and \<open>encode()\<close>, which raises
  on a surrogate, with their round trip.
\<close>

type_synonym ustring = "nat list"

definition ustr :: "string \<Rightarrow> ustring" where
  "ustr s = map code s"

definition REPLACEMENT :: nat where
  "REPLACEMENT = 0xFFFD"

definition scalar :: "nat \<Rightarrow> bool" where
  "scalar u \<longleftrightarrow> u < 0xD800 \<or> 0xE000 \<le> u \<and> u < 0x110000"

text \<open>The white space \<open>str.strip\<close> removes and \<open>\s\<close> matches, over all of Unicode.\<close>

definition is_uspace :: "nat \<Rightarrow> bool" where
  "is_uspace u \<longleftrightarrow>
     9 \<le> u \<and> u \<le> 13 \<or> 28 \<le> u \<and> u \<le> 32 \<or> u = 0x85 \<or> u = 0xA0 \<or> u = 0x1680 \<or> 0x2000 \<le> u \<and> u \<le> 0x200A \<or>
     u = 0x2028 \<or> u = 0x2029 \<or> u = 0x202F \<or> u = 0x205F \<or> u = 0x3000"

definition ustrip :: "ustring \<Rightarrow> ustring" where
  "ustrip s = strip is_uspace s"

lemma ustr_simps [simp]: "ustr [] = []" "ustr (c # s) = code c # ustr s" "ustr (s @ t) = ustr s @ ustr t"
  "length (ustr s) = length s" "ustr s = [] \<longleftrightarrow> s = []"
  by (simp_all add: ustr_def)

lemma ustr_append: "ustr (s @ t) = ustr s @ ustr t"
  by simp

lemma code_in_ustr: "code c \<in> set (ustr s) \<longleftrightarrow> c \<in> set s"
  by (auto simp: ustr_def code_def)

subsection \<open>Decoding\<close>

definition is_cont :: "nat \<Rightarrow> bool" where
  "is_cont b \<longleftrightarrow> 128 \<le> b \<and> b < 192"

text \<open>The second bytes a lead byte admits: no overlong form, no surrogate, nothing above U+10FFFF.\<close>

definition second_ok :: "nat \<Rightarrow> nat \<Rightarrow> bool" where
  "second_ok a b \<longleftrightarrow>
     (if a = 0xE0 then 0xA0 \<le> b \<and> b < 0xC0
      else if a = 0xED then 0x80 \<le> b \<and> b < 0xA0
      else if a = 0xF0 then 0x90 \<le> b \<and> b < 0xC0
      else if a = 0xF4 then 0x80 \<le> b \<and> b < 0x90
      else is_cont b)"

text \<open>The next character and how many bytes after the lead byte it takes.\<close>

definition utf8_head :: "nat \<Rightarrow> nat list \<Rightarrow> nat \<times> nat" where
  "utf8_head a rest =
     (if a < 0x80 then (a, 0)
      else if 0xC2 \<le> a \<and> a < 0xE0 then
        (case rest of
           b # _ \<Rightarrow> if is_cont b then ((a - 0xC0) * 64 + (b - 128), 1) else (REPLACEMENT, 0)
         | [] \<Rightarrow> (REPLACEMENT, 0))
      else if 0xE0 \<le> a \<and> a < 0xF0 then
        (case rest of
           b # r \<Rightarrow>
             if second_ok a b then
               (case r of
                  c # _ \<Rightarrow> if is_cont c then ((a - 0xE0) * 4096 + (b - 128) * 64 + (c - 128), 2) else (REPLACEMENT, 1)
                | [] \<Rightarrow> (REPLACEMENT, 1))
             else (REPLACEMENT, 0)
         | [] \<Rightarrow> (REPLACEMENT, 0))
      else if 0xF0 \<le> a \<and> a < 0xF5 then
        (case rest of
           b # r \<Rightarrow>
             if second_ok a b then
               (case r of
                  c # r' \<Rightarrow>
                    if is_cont c then
                      (case r' of
                         d # _ \<Rightarrow>
                           if is_cont d
                           then ((a - 0xF0) * 262144 + (b - 128) * 4096 + (c - 128) * 64 + (d - 128), 3)
                           else (REPLACEMENT, 2)
                       | [] \<Rightarrow> (REPLACEMENT, 2))
                    else (REPLACEMENT, 1)
                | [] \<Rightarrow> (REPLACEMENT, 1))
             else (REPLACEMENT, 0)
         | [] \<Rightarrow> (REPLACEMENT, 0))
      else (REPLACEMENT, 0))"

function utf8_from :: "nat list \<Rightarrow> ustring" where
  "utf8_from [] = []"
| "utf8_from (a # rest) = fst (utf8_head a rest) # utf8_from (drop (snd (utf8_head a rest)) rest)"
  by pat_completeness auto
termination
  by (relation "measure length") (auto simp: less_Suc_eq_le)

definition utf8_replace :: "bytes \<Rightarrow> ustring" where
  "utf8_replace bs = utf8_from (map unat bs)"

subsection \<open>Encoding\<close>

definition utf8_enc :: "nat \<Rightarrow> nat list" where
  "utf8_enc u =
     (if u < 0x80 then [u]
      else if u < 0x800 then [0xC0 + u div 64, 128 + u mod 64]
      else if u < 0x10000 then [0xE0 + u div 4096, 128 + u div 64 mod 64, 128 + u mod 64]
      else [0xF0 + u div 262144, 128 + u div 4096 mod 64, 128 + u div 64 mod 64, 128 + u mod 64])"

definition utf8_encode :: "ustring \<Rightarrow> exn + bytes" where
  "utf8_encode s =
     (if list_all scalar s then Inr (map word_of_nat (concat (map utf8_enc s))) else Inl (ValueError ''utf-8''))"

subsection \<open>The round trip\<close>

lemma utf8_from_ascii: "\<forall>b \<in> set s. b < 128 \<Longrightarrow> utf8_from s = s"
  by (induction s rule: utf8_from.induct) (auto simp: utf8_head_def)

lemma ascii_from_append: "\<forall>b \<in> set s. b < 128 \<Longrightarrow> utf8_from (s @ t) = s @ utf8_from t"
  by (induction s) (auto simp: utf8_head_def)

lemma utf8_head_scalar: "scalar (fst (utf8_head a rest))"
proof -
  have r: "scalar REPLACEMENT" by (simp add: scalar_def REPLACEMENT_def)
  consider "a < 0x80" | "0xC2 \<le> a" "a < 0xE0" | "0xE0 \<le> a" "a < 0xF0" | "0xF0 \<le> a" "a < 0xF5"
    | "0x80 \<le> a" "a < 0xC2 \<or> 0xF5 \<le> a" by linarith
  then show ?thesis
  proof cases
    case 1
    then show ?thesis by (simp add: utf8_head_def scalar_def)
  next
    case 2
    then show ?thesis using r by (auto simp: utf8_head_def scalar_def is_cont_def split: list.split)
  next
    case 3
    have "scalar ((a - 0xE0) * 4096 + (b - 128) * 64 + (c - 128))" if "second_ok a b" "is_cont c" for b c
      using that 3 unfolding scalar_def second_ok_def is_cont_def by (simp split: if_splits) linarith+
    with 3 r show ?thesis by (auto simp: utf8_head_def split: list.split)
  next
    case 4
    have "scalar ((a - 0xF0) * 262144 + (b - 128) * 4096 + (c - 128) * 64 + (d - 128))"
      if "second_ok a b" "is_cont c" "is_cont d" for b c d
      using that 4 unfolding scalar_def second_ok_def is_cont_def by (simp split: if_splits) linarith+
    with 4 r show ?thesis by (auto simp: utf8_head_def split: list.split)
  next
    case 5
    then show ?thesis using r by (auto simp: utf8_head_def)
  qed
qed

lemma utf8_from_scalar: "list_all scalar (utf8_from s)"
  by (induction s rule: utf8_from.induct) (simp_all add: utf8_head_scalar)

text \<open>Decoded text can always be encoded again.\<close>

lemma utf8_replace_scalar [simp]: "list_all scalar (utf8_replace bs)"
  by (simp add: utf8_replace_def utf8_from_scalar)

lemma utf8_enc_less: "scalar u \<Longrightarrow> b \<in> set (utf8_enc u) \<Longrightarrow> b < 256"
  by (auto simp: utf8_enc_def scalar_def split: if_splits)

lemma digits64:
  "u div 4096 * 4096 + u div 64 mod 64 * 64 + u mod 64 = (u :: nat)"
  "u div 262144 * 262144 + u div 4096 mod 64 * 4096 + u div 64 mod 64 * 64 + u mod 64 = (u :: nat)"
proof -
  have a: "u div 64 * 64 + u mod 64 = u" by simp
  have "u div 4096 = u div 64 div 64" "u div 262144 = u div 4096 div 64"
    using div_mult2_eq [of u 64 64] div_mult2_eq [of u 4096 64] by simp_all
  then have b: "u div 4096 * 64 + u div 64 mod 64 = u div 64" and c: "u div 262144 * 64 + u div 4096 mod 64 = u div 4096"
    by simp_all
  from a b show t: "u div 4096 * 4096 + u div 64 mod 64 * 64 + u mod 64 = u" by linarith
  from t c show "u div 262144 * 262144 + u div 4096 mod 64 * 4096 + u div 64 mod 64 * 64 + u mod 64 = u"
    by linarith
qed

lemma utf8_from_enc:
  assumes "scalar u"
  shows "utf8_from (utf8_enc u @ rest) = u # utf8_from rest"
proof -
  have m: "n mod 64 < (64 :: nat)" for n by simp
  consider "u < 0x80" | "0x80 \<le> u" "u < 0x800" | "0x800 \<le> u" "u < 0x10000" | "0x10000 \<le> u" "u < 0x110000"
    using assms by (fastforce simp: scalar_def)
  then show ?thesis
  proof cases
    case 1
    then show ?thesis by (simp add: utf8_enc_def utf8_head_def)
  next
    case 2
    then have "2 \<le> u div 64" "u div 64 < 32" by (simp_all add: less_mult_imp_div_less)
    moreover have "utf8_enc u = [0xC0 + u div 64, 128 + u mod 64]" using 2 by (simp add: utf8_enc_def)
    ultimately show ?thesis using m [of u] by (simp add: utf8_head_def is_cont_def)
  next
    case 3
    let ?a = "u div 4096" and ?b = "u div 64 mod 64" and ?c = "u mod 64"
    have n: "?a < 16" using 3 by (simp add: less_mult_imp_div_less)
    note eq = digits64(1) [of u] and mb = m [of "u div 64"] and mc = m [of u]
    have "second_ok (224 + ?a) (128 + ?b)"
      using 3 n eq mb mc assms unfolding second_ok_def is_cont_def scalar_def by (simp split: if_split) linarith
    moreover have "utf8_enc u = [0xE0 + ?a, 128 + ?b, 128 + ?c]" using 3 by (simp add: utf8_enc_def)
    ultimately show ?thesis using n eq mb mc by (simp add: utf8_head_def is_cont_def)
  next
    case 4
    let ?a = "u div 262144" and ?b = "u div 4096 mod 64" and ?c = "u div 64 mod 64" and ?d = "u mod 64"
    have n: "?a < 5" using 4 by (simp add: less_mult_imp_div_less)
    note eq = digits64(2) [of u] and mb = m [of "u div 4096"] and mc = m [of "u div 64"] and md = m [of u]
    have "second_ok (240 + ?a) (128 + ?b)"
      using 4 n eq mb mc md unfolding second_ok_def is_cont_def by (simp split: if_split) linarith
    moreover have "utf8_enc u = [0xF0 + ?a, 128 + ?b, 128 + ?c, 128 + ?d]" using 4 by (simp add: utf8_enc_def)
    ultimately show ?thesis using n eq mb mc md by (simp add: utf8_head_def is_cont_def)
  qed
qed

lemma utf8_from_encoded: "list_all scalar s \<Longrightarrow> utf8_from (concat (map utf8_enc s) @ rest) = s @ utf8_from rest"
  by (induction s) (simp_all add: utf8_from_enc)

lemma unat_bytes: "\<forall>b \<in> set xs. b < 256 \<Longrightarrow> map unat (map word_of_nat xs :: bytes) = xs"
  by (induction xs) (simp_all add: unat_of_nat)

lemma encoded_bytes:
  assumes "list_all scalar s"
  shows "map unat (map word_of_nat (concat (map utf8_enc s)) :: bytes) = concat (map utf8_enc s)"
proof (rule unat_bytes)
  show "\<forall>b \<in> set (concat (map utf8_enc s)). b < 256"
    using assms utf8_enc_less by (fastforce simp: list_all_iff)
qed

text \<open>The encoding of text without surrogates.\<close>

definition utf8 :: "ustring \<Rightarrow> bytes" where
  "utf8 s = map word_of_nat (concat (map utf8_enc s))"

lemma utf8_encode_scalar: "list_all scalar s \<Longrightarrow> utf8_encode s = Inr (utf8 s)"
  by (simp add: utf8_encode_def utf8_def)

lemma utf8_replace_utf8: "list_all scalar s \<Longrightarrow> utf8_replace (utf8 s) = s"
  using encoded_bytes [of s] utf8_from_encoded [of s "[]"] by (simp add: utf8_replace_def utf8_def)

lemma scalar_ustr [simp]: "list_all scalar (ustr t)"
  by (auto simp: ustr_def list_all_iff scalar_def intro: less_trans [OF code_less])

lemma utf8_eq_Nil [simp]: "utf8 s = [] \<longleftrightarrow> s = []"
  by (cases s) (simp_all add: utf8_def utf8_enc_def)

lemma utf8_encode_decode: "utf8_encode s = Inr bs \<Longrightarrow> utf8_replace bs = s"
  using encoded_bytes [of s] utf8_from_encoded [of s "[]"]
  by (auto simp: utf8_encode_def utf8_replace_def split: if_splits)

lemma utf8_encode_append:
  "utf8_encode s = Inr bs \<Longrightarrow> utf8_encode t = Inr cs \<Longrightarrow> utf8_encode (s @ t) = Inr (bs @ cs)"
  by (auto simp: utf8_encode_def split: if_splits)

text \<open>ASCII text is its own encoding.\<close>

definition ascii :: "string \<Rightarrow> bool" where
  "ascii s \<longleftrightarrow> list_all (\<lambda>c. code c < 128) s"

lemma scalar_ascii: "u < 128 \<Longrightarrow> scalar u"
  by (simp add: scalar_def)

lemma utf8_encode_ustr: "ascii s \<Longrightarrow> utf8_encode (ustr s) = Inr (b_lit s)"
proof -
  assume a: "ascii s"
  then have "concat (map utf8_enc (ustr s)) = ustr s" by (induction s) (auto simp: ascii_def utf8_enc_def)
  with a show ?thesis
    by (auto simp: utf8_encode_def ascii_def list_all_iff ustr_def b_lit_def byte_of_chr_def scalar_ascii)
qed

lemma utf8_replace_b_lit: "ascii s \<Longrightarrow> utf8_replace (b_lit s) = ustr s"
  using utf8_encode_decode [OF utf8_encode_ustr] .

lemma utf8_replace_append: "ascii s \<Longrightarrow> utf8_replace (b_lit s @ bs) = ustr s @ utf8_replace bs"
proof -
  assume a: "ascii s"
  have "map unat (b_lit s) = ustr s" by (simp add: b_lit_def ustr_def)
  moreover have "\<forall>b \<in> set (ustr s). b < 128" using a by (auto simp: ascii_def list_all_iff ustr_def)
  ultimately show ?thesis by (simp add: utf8_replace_def ascii_from_append)
qed

lemma utf8_ustr: "ascii s \<Longrightarrow> utf8 (ustr s) = b_lit s"
  using utf8_encode_ustr [of s] by (simp add: utf8_encode_scalar)

lemma utf8_append [simp]: "utf8 (s @ t) = utf8 s @ utf8 t"
  by (simp add: utf8_def)

lemma byte_of_chr_inj: "byte_of_chr a = byte_of_chr b \<longleftrightarrow> a = b"
  by (metis chr_of_byte_of_chr)

lemma starts_with_b_lit [simp]: "starts_with (b_lit a) (b_lit b) \<longleftrightarrow> starts_with a b"
proof -
  have "inj (map byte_of_chr)" by (intro inj_mapI injI) (simp add: byte_of_chr_inj)
  then show ?thesis by (simp add: starts_with_def b_lit_def take_map inj_eq)
qed

lemma contains_b_lit [simp]: "contains (b_lit a) (b_lit b) \<longleftrightarrow> contains a b"
proof (induction b)
  case (Cons x b)
  then show ?case using starts_with_b_lit [of a "x # b"] by (simp add: b_lit_def)
qed (simp add: b_lit_def)

end
