(* ===== verification/RcpParse.thy ===== *)
theory RcpParse
  imports Cameras RcpLocal Utext
begin

section \<open>Parsers of RCP payloads\<close>

text \<open>
  The response parsers of \<open>rcp.py\<close>: alarm catalog, motion zones and their coordinates, TLS
  certificate, network services and analytics modules. Decoded text is a list of code points,
  since a payload can hold any character; \<open>printable\<close> stands for the Unicode table behind
  \<open>str.isprintable\<close>, and \<open>load_cert\<close> for the \<open>cryptography\<close> package. The lemmas give the bounds of
  what the parsers return and that they consume whole records only.
\<close>

subsection \<open>Decoding text\<close>

text \<open>\<open>decode("ascii", errors="replace")\<close>.\<close>

definition ascii_replace :: "bytes \<Rightarrow> ustring" where
  "ascii_replace bs = map (\<lambda>b. if unat b < 128 then unat b else REPLACEMENT) bs"

definition unit16 :: "byte \<Rightarrow> byte \<Rightarrow> nat" where
  "unit16 a b = unat a * 256 + unat b"

definition is_high :: "nat \<Rightarrow> bool" where
  "is_high u \<longleftrightarrow> 0xD800 \<le> u \<and> u < 0xDC00"

definition is_low :: "nat \<Rightarrow> bool" where
  "is_low u \<longleftrightarrow> 0xDC00 \<le> u \<and> u < 0xE000"

text \<open>
  \<open>decode("utf-16-be", errors="replace")\<close>: an unpaired surrogate and an odd last byte become the
  replacement character, a high surrogate at the end of the data takes the rest with it.
\<close>

fun utf16be_replace :: "bytes \<Rightarrow> ustring" where
  "utf16be_replace [] = []"
| "utf16be_replace [b] = [REPLACEMENT]"
| "utf16be_replace (a # b # rest) =
     (let u = unit16 a b in
      if is_low u then REPLACEMENT # utf16be_replace rest
      else if is_high u then
        (case rest of
           c # d # rest' \<Rightarrow>
             let v = unit16 c d in
             if is_low v then (0x10000 + (u - 0xD800) * 0x400 + (v - 0xDC00)) # utf16be_replace rest'
             else REPLACEMENT # utf16be_replace rest
         | _ \<Rightarrow> [REPLACEMENT])
      else u # utf16be_replace rest)"

text \<open>
  \<open>str.lower\<close> as far as an ASCII keyword can tell: besides the ASCII capitals, only the Kelvin sign
  and the dotted capital I have a lower case with an ASCII character in it.
\<close>

definition ulower :: "ustring \<Rightarrow> ustring" where
  "ulower s = concat (map (\<lambda>u. if 65 \<le> u \<and> u \<le> 90 then [u + 32]
     else if u = 0x212A then [107] else if u = 0x130 then [105, 0x307] else [u]) s)"

definition keeps_char :: "(nat \<Rightarrow> bool) \<Rightarrow> nat \<Rightarrow> bool" where
  "keeps_char printable u \<longleftrightarrow> printable u \<or> u = 32"

definition clean_name :: "(nat \<Rightarrow> bool) \<Rightarrow> ustring \<Rightarrow> ustring" where
  "clean_name printable s = filter (keeps_char printable) s"

text \<open>\<open>[p.strip() for p in text.split("\x00") if p.strip()]\<close>\<close>

definition nul_parts :: "ustring \<Rightarrow> ustring list" where
  "nul_parts t = filter (\<lambda>p. p \<noteq> []) (map ustrip (split_on 0 t))"

subsection \<open>Alarm catalog (0x0c38)\<close>

record Alarm =
  al_id :: nat
  al_name :: ustring
  al_type :: string

definition alarm_keywords :: "(string list \<times> string) list" where
  "alarm_keywords =
     [([''virtual alarm''], ''virtual''), ([''flame''], ''flame''), ([''smoke''], ''smoke''), ([''audio''], ''audio''),
      ([''signal'', ''loss''], ''signal''), ([''storage'', ''disk''], ''storage''),
      ([''motion'', ''resilmotion'', ''resimotion''], ''motion''), ([''reference''], ''reference''),
      ([''config''], ''config''), ([''global''], ''global_change''), ([''task''], ''task'')]"

definition alarm_type :: "ustring \<Rightarrow> string" where
  "alarm_type name =
     (case find (\<lambda>(words, _). list_ex (\<lambda>k. contains (ustr k) (ulower name)) words) alarm_keywords of
        None \<Rightarrow> ''unknown'' | Some (_, t) \<Rightarrow> t)"

fun alarms_from :: "(nat \<Rightarrow> bool) \<Rightarrow> nat \<Rightarrow> ustring list \<Rightarrow> Alarm list" where
  "alarms_from printable i [] = []"
| "alarms_from printable i (part # parts) =
     (let name = clean_name printable part in
      if 1 < length name
      then \<lparr>al_id = i, al_name = name, al_type = alarm_type name\<rparr> # alarms_from printable (Suc i) parts
      else alarms_from printable (Suc i) parts)"

definition parse_alarm_catalog :: "(nat \<Rightarrow> bool) \<Rightarrow> bytes \<Rightarrow> Alarm list" where
  "parse_alarm_catalog printable raw = alarms_from printable 0 (nul_parts (utf16be_replace raw))"

subsection \<open>Fixed-size records\<close>

text \<open>\<open>raw[i * size : (i + 1) * size]\<close>\<close>

definition chunk :: "nat \<Rightarrow> bytes \<Rightarrow> nat \<Rightarrow> bytes" where
  "chunk n raw i = take n (drop (i * n) raw)"

record MotionZone =
  mz_zone_id :: nat
  mz_raw_hex :: string
  mz_size :: nat

definition parse_motion_zones :: "bytes \<Rightarrow> MotionZone list" where
  "parse_motion_zones raw =
     map (\<lambda>i. \<lparr>mz_zone_id = i, mz_raw_hex = to_hex (chunk 28 raw i), mz_size = length (chunk 28 raw i)\<rparr>)
       [0..<min (length raw div 28) 5]"

text \<open>\<open>struct.unpack(">H", chunk[2 * j : 2 * j + 2])\<close>\<close>

definition word_at :: "bytes \<Rightarrow> nat \<Rightarrow> int" where
  "word_at c j = be16 (c ! (2 * j)) (c ! (2 * j + 1))"

record MotionRect =
  mr_x1 :: pyfloat
  mr_y1 :: pyfloat
  mr_x2 :: pyfloat
  mr_y2 :: pyfloat

text \<open>\<open>round(x / 100, 1)\<close>\<close>

definition percent :: "int \<Rightarrow> exn + pyfloat" where
  "percent x =
     (case int_true_div x 100 of
        Inl e \<Rightarrow> Inl e
      | Inr (Fin q) \<Rightarrow> round_places 1 q
      | Inr y \<Rightarrow> Inr y)"

definition parse_rect :: "bytes \<Rightarrow> exn + MotionRect" where
  "parse_rect c =
     (case map_exn percent [word_at c 0, word_at c 1, word_at c 2, word_at c 3] of
        Inr [x1, y1, x2, y2] \<Rightarrow> Inr \<lparr>mr_x1 = x1, mr_y1 = y1, mr_x2 = x2, mr_y2 = y2\<rparr>
      | Inr _ \<Rightarrow> Inl (ValueError ''unpack'')
      | Inl e \<Rightarrow> Inl e)"

definition parse_motion_coords :: "bytes \<Rightarrow> exn + MotionRect list" where
  "parse_motion_coords raw = map_exn (\<lambda>z. parse_rect (chunk 8 raw z)) [0..<length raw div 8]"

record IvaModule =
  iv_module_id :: int
  iv_version :: int
  iv_flags :: int
  iv_active :: bool

definition parse_iva_entry :: "bytes \<Rightarrow> IvaModule" where
  "parse_iva_entry c =
     \<lparr>iv_module_id = word_at c 0, iv_version = word_at c 1, iv_flags = word_at c 2, iv_active = odd (word_at c 2)\<rparr>"

definition parse_iva_catalog :: "bytes \<Rightarrow> IvaModule list" where
  "parse_iva_catalog raw =
     filter (\<lambda>m. 0 < iv_module_id m) (map (\<lambda>i. parse_iva_entry (chunk 6 raw i)) [0..<min (length raw div 6) 65])"

subsection \<open>TLS certificate (0x0b91) and network services (0x0c62)\<close>

text \<open>
  \<open>load_cert\<close> gives the attributes the code reads off the certificate in their order, each a value or
  the exception its access raises; the first exception ends the loop and leaves the hex prefix.
\<close>

fun cert_fields :: "(string \<times> (exn + json)) list \<Rightarrow> obj \<Rightarrow> obj \<times> exn option" where
  "cert_fields [] info = (info, None)"
| "cert_fields ((k, v) # rest) info =
     (case v of Inl e \<Rightarrow> (info, Some e) | Inr j \<Rightarrow> cert_fields rest (dict_set k j info))"

definition parse_tls_cert :: "(bytes \<Rightarrow> exn + (string \<times> (exn + json)) list) \<Rightarrow> bytes \<Rightarrow> obj" where
  "parse_tls_cert load_cert raw =
     (let info = [(''raw_size'', JInt (int (length raw)))];
          (info', failed) = (case load_cert raw of Inl e \<Rightarrow> (info, Some e) | Inr attrs \<Rightarrow> cert_fields attrs info) in
      if failed = None then info' else dict_set ''raw_hex'' (JStr (to_hex (take 40 raw) @ ''...'')) info')"

definition parse_network_services :: "(nat \<Rightarrow> bool) \<Rightarrow> bytes \<Rightarrow> ustring list" where
  "parse_network_services printable raw =
     filter (\<lambda>clean. 1 < length clean) (map (clean_name printable) (nul_parts (ascii_replace raw)))"

subsection \<open>Bounds\<close>

lemma length_chunk: "i < length raw div n \<Longrightarrow> length (chunk n raw i) = n"
proof -
  assume i: "i < length raw div n"
  then have "Suc i * n \<le> length raw div n * n" by (intro mult_le_mono1) simp
  also have "\<dots> \<le> length raw" by simp
  finally show ?thesis by (simp add: chunk_def)
qed

lemma word_at_range: "0 \<le> word_at c j \<and> word_at c j < 65536"
  unfolding word_at_def by (rule be16_range)

lemma alarms_from_ids:
  "a \<in> set (alarms_from printable i parts) \<Longrightarrow> i \<le> al_id a \<and> al_id a < i + length parts"
  by (induction parts arbitrary: i) (fastforce simp: Let_def split: if_splits)+

lemma alarms_from_names:
  "a \<in> set (alarms_from printable i parts) \<Longrightarrow>
     1 < length (al_name a) \<and> (\<forall>u \<in> set (al_name a). keeps_char printable u) \<and> al_type a = alarm_type (al_name a)"
  by (induction parts arbitrary: i) (auto simp: Let_def clean_name_def split: if_splits)

lemma alarms_from_distinct: "distinct (map al_id (alarms_from printable i parts))"
proof (induction parts arbitrary: i)
  case (Cons p ps)
  have "i \<notin> al_id ` set (alarms_from printable (Suc i) ps)"
    using alarms_from_ids [of _ printable "Suc i" ps] by fastforce
  with Cons show ?case by (simp add: Let_def)
qed simp

lemma contains_mono: "contains p s \<Longrightarrow> length p \<le> length s"
  by (induction s) (auto simp: starts_with_def min_def dest: arg_cong [where f = length] split: if_splits)

lemma alarm_type_known:
  "alarm_type name \<in> insert ''unknown'' (snd ` set alarm_keywords)"
proof (cases "find (\<lambda>(words, _). list_ex (\<lambda>k. contains (ustr k) (ulower name)) words) alarm_keywords")
  case (Some p)
  then have "p \<in> set alarm_keywords" by (metis find_Some_iff nth_mem)
  with Some show ?thesis by (cases p) (force simp: alarm_type_def)
qed (simp add: alarm_type_def)

subsection \<open>Records read back\<close>

lemma chunk_concat:
  "concat (map (chunk n raw) [0..<k]) = take (k * n) raw"
proof (induction k)
  case (Suc k)
  have "take (k * n + n) raw = take (k * n) raw @ take n (drop (k * n) raw)" by (rule take_add)
  then have "take (Suc k * n) raw = take (k * n) raw @ take n (drop (k * n) raw)" by (simp add: add.commute)
  with Suc show ?case by (simp add: chunk_def)
qed simp

lemma chunk_records:
  assumes "\<forall>r \<in> set rs. length r = n" "i < length rs"
  shows "chunk n (concat rs) i = rs ! i"
  using assms
proof (induction rs arbitrary: i)
  case (Cons r rs)
  then show ?case by (cases i) (simp_all add: chunk_def)
qed simp

lemma length_records: "\<forall>r \<in> set rs. length r = n \<Longrightarrow> length (concat rs) = length rs * n"
  by (induction rs) auto

definition iva_bytes :: "IvaModule \<Rightarrow> bytes" where
  "iva_bytes m = put16 (iv_module_id m) @ put16 (iv_version m) @ put16 (iv_flags m)"

definition iva_ok :: "IvaModule \<Rightarrow> bool" where
  "iva_ok m \<longleftrightarrow> 0 < iv_module_id m \<and> iv_module_id m < 65536 \<and> 0 \<le> iv_version m \<and> iv_version m < 65536 \<and>
     0 \<le> iv_flags m \<and> iv_flags m < 65536 \<and> (iv_active m \<longleftrightarrow> odd (iv_flags m))"

lemma put16_two: "\<exists>a b. put16 v = [a, b]"
  by (simp add: put16_def)

lemma parse_iva_bytes:
  assumes "iva_ok m"
  shows "parse_iva_entry (iva_bytes m) = m"
proof -
  obtain a b c d e f where p: "put16 (iv_module_id m) = [a, b]" "put16 (iv_version m) = [c, d]" "put16 (iv_flags m) = [e, f]"
    using put16_two by metis
  have "be16 a b = iv_module_id m" "be16 c d = iv_version m" "be16 e f = iv_flags m"
    using assms be16_put16 [OF _ _ p(1)] be16_put16 [OF _ _ p(2)] be16_put16 [OF _ _ p(3)] by (auto simp: iva_ok_def)
  then show ?thesis
    using assms by (simp add: parse_iva_entry_def word_at_def iva_bytes_def p iva_ok_def eval_nat_numeral)
qed

subsection \<open>Text read back\<close>

definition put_unit :: "nat \<Rightarrow> bytes" where
  "put_unit u = [word_of_nat (u div 256), word_of_nat (u mod 256)]"

definition utf16be_char :: "nat \<Rightarrow> bytes" where
  "utf16be_char u =
     (if u < 0x10000 then put_unit u
      else put_unit (0xD800 + (u - 0x10000) div 0x400) @ put_unit (0xDC00 + (u - 0x10000) mod 0x400))"

definition utf16be_encode :: "ustring \<Rightarrow> bytes" where
  "utf16be_encode s = concat (map utf16be_char s)"

lemma unit16_put:
  assumes "u < 0x10000"
  shows "unit16 (word_of_nat (u div 256)) (word_of_nat (u mod 256)) = u"
proof -
  have "u div 256 < 256" using assms by (simp add: less_mult_imp_div_less)
  then have "unat (word_of_nat (u div 256) :: byte) = u div 256" "unat (word_of_nat (u mod 256) :: byte) = u mod 256"
    by (simp_all add: unat_of_nat)
  then show ?thesis by (simp add: unit16_def)
qed

lemma utf16be_replace_char:
  assumes "scalar u"
  shows "utf16be_replace (utf16be_char u @ rest) = u # utf16be_replace rest"
proof (cases "u < 0x10000")
  case True
  with assms have "\<not> is_low u" "\<not> is_high u" by (auto simp: scalar_def is_low_def is_high_def)
  then show ?thesis using True by (simp add: utf16be_char_def put_unit_def unit16_put Let_def)
next
  case False
  let ?v = "u - 0x10000"
  have lt: "?v < 0x100000" using assms False by (auto simp: scalar_def)
  then have "?v div 0x400 < 0x400" by (simp add: less_mult_imp_div_less)
  then have hi: "0xD800 + ?v div 0x400 < 0x10000" "is_high (0xD800 + ?v div 0x400)" "\<not> is_low (0xD800 + ?v div 0x400)"
    by (simp_all add: is_high_def is_low_def)
  have lo: "0xDC00 + ?v mod 0x400 < 0x10000" "is_low (0xDC00 + ?v mod 0x400)"
    using mod_less_divisor [of "0x400" ?v] by (simp_all add: is_low_def)
  have "0x10000 + (?v div 0x400) * 0x400 + ?v mod 0x400 = u"
    using False div_mult_mod_eq [of ?v "0x400"] by linarith
  then show ?thesis
    using False hi lo unit16_put [OF hi(1)] unit16_put [OF lo(1)]
    by (simp add: utf16be_char_def put_unit_def Let_def)
qed

lemma utf16be_decode_encode: "\<forall>u \<in> set s. scalar u \<Longrightarrow> utf16be_replace (utf16be_encode s) = s"
  by (induction s) (simp_all add: utf16be_encode_def utf16be_replace_char)

lemma split_on_join_with:
  "\<forall>n \<in> set ns. c \<notin> set n \<Longrightarrow> ns \<noteq> [] \<Longrightarrow> split_on c (join_with [c] ns) = ns"
proof (induction "[c]" ns rule: join_with.induct)
  case (3 s t ts)
  then show ?case by (simp add: split_on_append)
qed (simp_all add: split_on_none)

text \<open>A catalog name the parser keeps as it is.\<close>

definition catalog_name :: "(nat \<Rightarrow> bool) \<Rightarrow> ustring \<Rightarrow> bool" where
  "catalog_name printable n \<longleftrightarrow>
     1 < length n \<and> ustrip n = n \<and> (\<forall>u \<in> set n. scalar u \<and> keeps_char printable u \<and> u \<noteq> 0)"

lemma nul_parts_join:
  assumes "\<forall>n \<in> set ns. catalog_name printable n" "ns \<noteq> []"
  shows "nul_parts (join_with [0] ns) = ns"
proof -
  have "\<forall>n \<in> set ns. 0 \<notin> set n" using assms(1) by (auto simp: catalog_name_def)
  then have "split_on 0 (join_with [0] ns) = ns" using assms(2) by (rule split_on_join_with)
  moreover have "map ustrip ns = ns" using assms(1) by (auto intro!: map_idI simp: catalog_name_def)
  moreover have "filter (\<lambda>p. p \<noteq> []) ns = ns" using assms(1) by (auto intro!: filter_True simp: catalog_name_def)
  ultimately show ?thesis by (simp add: nul_parts_def)
qed

lemma clean_catalog_name: "catalog_name printable n \<Longrightarrow> clean_name printable n = n"
  unfolding clean_name_def catalog_name_def by (intro filter_True) blast

lemma alarms_from_names_all:
  "\<forall>n \<in> set ns. catalog_name printable n \<Longrightarrow>
     alarms_from printable i ns = map (\<lambda>(j, n). \<lparr>al_id = j, al_name = n, al_type = alarm_type n\<rparr>) (zip [i..<i + length ns] ns)"
proof (induction ns arbitrary: i)
  case (Cons n ns)
  then have "catalog_name printable n" by simp
  then have "clean_name printable n = n" "1 < length n" by (simp_all add: clean_catalog_name catalog_name_def)
  moreover have "[i..<i + length (n # ns)] = i # [Suc i..<Suc i + length ns]"
    by (simp add: upt_conv_Cons del: upt_Suc)
  ultimately show ?case using Cons by (simp add: Let_def del: upt_Suc)
qed simp

lemma join_with_set: "u \<in> set (join_with [c] ns) \<Longrightarrow> u = c \<or> (\<exists>n \<in> set ns. u \<in> set n)"
  by (induction "[c]" ns rule: join_with.induct) auto

subsection \<open>Percentages\<close>

lemma percent_close:
  assumes "0 \<le> x" "x < 65536"
  shows "\<exists>y. percent x = Inr (Fin y) \<and> \<bar>y - of_int x / 100\<bar> \<le> 51 / 1000"
proof -
  have x: "0 \<le> (of_int x :: rat)" "(of_int x :: rat) < 65536"
    using assms by (simp_all add: of_int_less_iff [of x 65536, simplified])
  then have "\<bar>(of_int x :: rat) / of_int 100\<bar> < 2 ^ 20" by simp
  from to_float_close [OF this] obtain r where
      r: "int_true_div x 100 = Inr (Fin r)" "\<bar>r - of_int x / 100\<bar> \<le> 1 / 2 ^ 30"
    by (auto simp: int_true_div_def)
  let ?n = "round_half_even (r * 10 ^ 1)"
  have n: "\<bar>of_int ?n - r * 10 ^ 1\<bar> \<le> 1 / 2" by (rule round_half_even_error)
  have rb: "\<bar>r\<bar> < 657" using r(2) x by (simp add: abs_if split: if_splits)
  then have "\<bar>(of_int ?n :: rat) / 10 ^ 1\<bar> < 2 ^ 20" using n by (simp add: abs_if split: if_splits)
  from to_float_close [OF this] obtain y where
      y: "round_places 1 r = Inr (Fin y)" "\<bar>y - of_int ?n / 10 ^ 1\<bar> \<le> 1 / 2 ^ 30"
    by (auto simp: round_places_def)
  have "\<bar>of_int ?n / 10 ^ 1 - r\<bar> \<le> 1 / 20" using n by (simp add: abs_if split: if_splits)
  moreover have "(1 :: rat) / 2 ^ 30 \<le> 1 / 2000" by simp
  ultimately have "\<bar>y - of_int x / 100\<bar> \<le> 51 / 1000" using y(2) r(2) by linarith
  with y(1) r(1) show ?thesis by (simp add: percent_def)
qed

text \<open>What a coordinate of a rectangle is, given the 16-bit word it was read from.\<close>

definition near :: "pyfloat \<Rightarrow> int \<Rightarrow> bool" where
  "near y x \<longleftrightarrow> (\<exists>q. y = Fin q \<and> \<bar>q - of_int x / 100\<bar> \<le> 51 / 1000)"

lemma percent_near: "0 \<le> x \<and> x < 65536 \<Longrightarrow> \<exists>y. percent x = Inr y \<and> near y x"
  using percent_close [of x] by (auto simp: near_def)

lemma parse_rect_near:
  "\<exists>r. parse_rect c = Inr r \<and> near (mr_x1 r) (word_at c 0) \<and> near (mr_y1 r) (word_at c 1) \<and>
     near (mr_x2 r) (word_at c 2) \<and> near (mr_y2 r) (word_at c 3)"
proof -
  obtain a b d e where "percent (word_at c 0) = Inr a" "near a (word_at c 0)" "percent (word_at c 1) = Inr b" "near b (word_at c 1)"
      "percent (word_at c 2) = Inr d" "near d (word_at c 2)" "percent (word_at c 3) = Inr e" "near e (word_at c 3)"
    using percent_near word_at_range by metis
  then show ?thesis by (simp add: parse_rect_def)
qed

lemma map_exn_total:
  "(\<And>x. \<exists>y. f x = Inr y \<and> Q x y) \<Longrightarrow> \<exists>ys. map_exn f xs = Inr ys \<and> list_all2 Q xs ys"
proof (induction xs)
  case (Cons x xs)
  then obtain ys where "map_exn f xs = Inr ys" "list_all2 Q xs ys" by blast
  moreover obtain y where "f x = Inr y" "Q x y" using Cons.prems by blast
  ultimately show ?case by simp
qed simp

subsection \<open>Properties\<close>

text \<open>C25
  The alarm catalog round-trips: from the UTF-16 encoding of any list of names (longer than one
  character, trimmed, printable, any Unicode scalar values) separated by NUL characters, the parser
  recovers every name in order with its position as id and the type its keywords give.\<close>

theorem alarm_catalog_roundtrip:
  assumes "\<forall>n \<in> set ns. catalog_name printable n" "ns \<noteq> []"
  shows "parse_alarm_catalog printable (utf16be_encode (join_with [0] ns)) =
    map (\<lambda>(i, n). \<lparr>al_id = i, al_name = n, al_type = alarm_type n\<rparr>) (zip [0..<length ns] ns)"
proof -
  have "scalar u" if "u \<in> set (join_with [0] ns)" for u
    using join_with_set [OF that] assms(1) by (auto simp: catalog_name_def scalar_def)
  then have "utf16be_replace (utf16be_encode (join_with [0] ns)) = join_with [0] ns"
    by (intro utf16be_decode_encode) blast
  then show ?thesis
    using nul_parts_join [OF assms] alarms_from_names_all [OF assms(1), of 0]
    by (simp add: parse_alarm_catalog_def)
qed

definition ascii_printable :: "nat \<Rightarrow> bool" where
  "ascii_printable u \<longleftrightarrow> 32 \<le> u \<and> u < 127"

theorem alarm_catalog_roundtrip_witness:
  "map al_type (parse_alarm_catalog ascii_printable (utf16be_encode (join_with [0] [ustr ''Virtual Alarm 1'', ustr ''Smoke'', ustr ''Door'']))) =
     [''virtual'', ''smoke'', ''unknown'']"
proof -
  let ?ns = "[ustr ''Virtual Alarm 1'', ustr ''Smoke'', ustr ''Door'']"
  have "list_all (catalog_name ascii_printable) ?ns"
    by (simp add: catalog_name_def ustr_def code_def scalar_def keeps_char_def ascii_printable_def ustrip_def
        strip_def lstrip_def rstrip_def is_uspace_def)
  then have ok: "\<forall>n \<in> set ?ns. catalog_name ascii_printable n" by (simp only: list_all_iff)
  have ne: "?ns \<noteq> []" by simp
  have types: "alarm_type (ustr ''Virtual Alarm 1'') = ''virtual''" "alarm_type (ustr ''Smoke'') = ''smoke''"
      "alarm_type (ustr ''Door'') = ''unknown''"
    by (simp_all add: alarm_type_def alarm_keywords_def ustr_def ulower_def code_def starts_with_def)
  have "map al_type (map (\<lambda>(i, n). \<lparr>al_id = i, al_name = n, al_type = alarm_type n\<rparr>) (zip [0..<length ns] ns)) =
      map alarm_type ns" for ns
    by (rule nth_equalityI) simp_all
  then show ?thesis
    unfolding alarm_catalog_roundtrip [OF ok ne] by (simp only: list.map types)
qed

text \<open>
  The analytics catalog round-trips and is bounded: any list of at most 65 modules with a non-zero
  id and 16-bit fields is recovered from its six-byte records, and from any bytes at all the parser
  returns at most 65 modules, each with fields in range and the active flag equal to bit 0.\<close>

lemma iva_catalog_roundtrip:
  "(length ms \<le> 65 \<and> list_all iva_ok ms \<longrightarrow> parse_iva_catalog (concat (map iva_bytes ms)) = ms) \<and>
   length (parse_iva_catalog raw) \<le> 65 \<and> list_all iva_ok (parse_iva_catalog raw)"
proof (intro conjI impI)
  assume ms: "length ms \<le> 65 \<and> list_all iva_ok ms"
  have six: "\<forall>r \<in> set (map iva_bytes ms). length r = 6" by (simp add: iva_bytes_def put16_def)
  have len: "length (concat (map iva_bytes ms)) div 6 = length ms" using length_records [OF six] by simp
  have "map (\<lambda>i. parse_iva_entry (chunk 6 (concat (map iva_bytes ms)) i)) [0..<length ms] = ms"
  proof (rule nth_equalityI)
    fix i
    assume "i < length (map (\<lambda>i. parse_iva_entry (chunk 6 (concat (map iva_bytes ms)) i)) [0..<length ms])"
    then have i: "i < length ms" by simp
    then have "chunk 6 (concat (map iva_bytes ms)) i = iva_bytes (ms ! i)" using chunk_records [OF six, of i] by simp
    moreover have "iva_ok (ms ! i)" using ms i by (simp add: list_all_length)
    ultimately show "map (\<lambda>i. parse_iva_entry (chunk 6 (concat (map iva_bytes ms)) i)) [0..<length ms] ! i = ms ! i"
      using i by (simp add: parse_iva_bytes)
  qed simp
  moreover have "filter (\<lambda>m. 0 < iv_module_id m) ms = ms" using ms by (auto intro!: filter_True simp: list_all_iff iva_ok_def)
  ultimately show "parse_iva_catalog (concat (map iva_bytes ms)) = ms"
    using ms len by (simp add: parse_iva_catalog_def min_def)
next
  have "length (parse_iva_catalog raw) \<le> length [0..<min (length raw div 6) 65]"
    unfolding parse_iva_catalog_def by (metis length_filter_le length_map)
  then show "length (parse_iva_catalog raw) \<le> 65" by simp
  show "list_all iva_ok (parse_iva_catalog raw)"
    using word_at_range by (auto simp: list_all_iff parse_iva_catalog_def parse_iva_entry_def iva_ok_def)
qed

lemma iva_catalog_roundtrip_instance:
  "parse_iva_catalog (concat (map iva_bytes [\<lparr>iv_module_id = 258, iv_version = 3, iv_flags = 5, iv_active = True\<rparr>])) =
     [\<lparr>iv_module_id = 258, iv_version = 3, iv_flags = 5, iv_active = True\<rparr>]"
proof -
  let ?ms = "[\<lparr>iv_module_id = 258, iv_version = 3, iv_flags = 5, iv_active = True\<rparr>]"
  have "length ?ms \<le> 65 \<and> list_all iva_ok ?ms" by (simp add: iva_ok_def)
  then show ?thesis using iva_catalog_roundtrip [of ?ms "[]"] by blast
qed

text \<open>
  Motion zones are read without loss: there are at most five, numbered from 0, each of exactly 28
  bytes, and their hexadecimal texts put together are the hexadecimal text of the bytes covered.\<close>

lemma motion_zones_lossless:
  "\<exists>k. k = min (length raw div 28) 5 \<and> map mz_zone_id (parse_motion_zones raw) = [0..<k] \<and>
     list_all (\<lambda>z. mz_size z = 28 \<and> length (mz_raw_hex z) = 56) (parse_motion_zones raw) \<and>
     concat (map mz_raw_hex (parse_motion_zones raw)) = to_hex (take (k * 28) raw)"
proof (intro exI conjI)
  let ?k = "min (length raw div 28) 5"
  show "map mz_zone_id (parse_motion_zones raw) = [0..<?k]" by (simp add: parse_motion_zones_def comp_def)
  show "list_all (\<lambda>z. mz_size z = 28 \<and> length (mz_raw_hex z) = 56) (parse_motion_zones raw)"
    by (auto simp: list_all_iff parse_motion_zones_def length_chunk)
  have "concat (map (\<lambda>i. to_hex (f i)) is) = to_hex (concat (map f is))" for f :: "nat \<Rightarrow> bytes" and "is"
    by (induction "is") auto
  then show "concat (map mz_raw_hex (parse_motion_zones raw)) = to_hex (take (?k * 28) raw)"
    by (simp add: parse_motion_zones_def comp_def chunk_concat)
qed (rule refl)

text \<open>
  Motion coordinates never fail to parse: there is one rectangle per eight whole bytes, and each of
  its four coordinates is a finite float within 0.051 of a hundredth of the big-endian word it was
  read from, the rounding to one decimal included.\<close>

lemma motion_coords_accuracy:
  "\<exists>rects. parse_motion_coords raw = Inr rects \<and> length rects = length raw div 8 \<and>
     list_all2 (\<lambda>i r. near (mr_x1 r) (word_at (chunk 8 raw i) 0) \<and> near (mr_y1 r) (word_at (chunk 8 raw i) 1) \<and>
       near (mr_x2 r) (word_at (chunk 8 raw i) 2) \<and> near (mr_y2 r) (word_at (chunk 8 raw i) 3))
       [0..<length raw div 8] rects"
proof -
  have "\<exists>r. parse_rect (chunk 8 raw i) = Inr r \<and> (near (mr_x1 r) (word_at (chunk 8 raw i) 0) \<and> near (mr_y1 r) (word_at (chunk 8 raw i) 1) \<and>
       near (mr_x2 r) (word_at (chunk 8 raw i) 2) \<and> near (mr_y2 r) (word_at (chunk 8 raw i) 3))" for i
    by (rule parse_rect_near)
  from map_exn_total [of "\<lambda>i. parse_rect (chunk 8 raw i)", OF this, of "[0..<length raw div 8]"]
  obtain rects where r: "parse_motion_coords raw = Inr rects"
      "list_all2 (\<lambda>i r. near (mr_x1 r) (word_at (chunk 8 raw i) 0) \<and> near (mr_y1 r) (word_at (chunk 8 raw i) 1) \<and>
       near (mr_x2 r) (word_at (chunk 8 raw i) 2) \<and> near (mr_y2 r) (word_at (chunk 8 raw i) 3))
       [0..<length raw div 8] rects" by (auto simp only: parse_motion_coords_def)
  moreover have "length rects = length raw div 8" using list_all2_lengthD [OF r(2)] by simp
  ultimately show ?thesis by blast
qed

end
