(* ===== verification/RcpFetch.thy ===== *)
theory RcpFetch
  imports RcpSession RcpParse "HOL-Library.Sublist"
begin

section \<open>Fetching the RCP data of a camera\<close>

text \<open>
  \<open>fetch_rcp_camera_data\<close> of \<open>rcp.py\<close>: twelve guarded reads over one session, each with the
  decision its block takes on the answer (keep a value and clear the strikes, add a strike, or
  neither), and the skip of a command with three strikes. The guard around every block catches any
  exception. The monotonic clock, the wall clock in microseconds since year 1, the Unicode table
  and the certificate loader are arguments.
\<close>

subsection \<open>The result\<close>

record RcpCameraData =
  rd_dimmer :: "int option"
  rd_privacy :: "int option"
  rd_clock_offset :: "pyfloat option"
  rd_lan_ip :: "ustring option"
  rd_product_name :: "ustring option"
  rd_bitrate :: "int list option"
  rd_alarm_catalog :: "Alarm list option"
  rd_motion_zones :: "MotionZone list option"
  rd_motion_coords :: "MotionRect list option"
  rd_tls_cert :: "obj option"
  rd_network_services :: "ustring list option"
  rd_iva_catalog :: "IvaModule list option"

definition no_data :: RcpCameraData where
  "no_data = \<lparr>rd_dimmer = None, rd_privacy = None, rd_clock_offset = None, rd_lan_ip = None, rd_product_name = None,
     rd_bitrate = None, rd_alarm_catalog = None, rd_motion_zones = None, rd_motion_coords = None, rd_tls_cert = None,
     rd_network_services = None, rd_iva_catalog = None\<rparr>"

record rcp_env =
  en_utc_now :: int
  en_printable :: "nat \<Rightarrow> bool"
  en_load_cert :: "bytes \<Rightarrow> exn + (string \<times> (exn + json)) list"

subsection \<open>The strike counters\<close>

definition strikes :: "'z rcp_net_scheme \<Rightarrow> string \<Rightarrow> nat" where
  "strikes w cmd = (case cmd_failures w cmd of None \<Rightarrow> 0 | Some n \<Rightarrow> n)"

definition skip_cmd :: "'z rcp_net_scheme \<Rightarrow> string \<Rightarrow> bool" where
  "skip_cmd w cmd \<longleftrightarrow> 3 \<le> strikes w cmd"

definition mark_fail :: "string \<Rightarrow> 'z rcp_net_scheme \<Rightarrow> 'z rcp_net_scheme" where
  "mark_fail cmd w = w\<lparr>cmd_failures := (cmd_failures w)(cmd \<mapsto> strikes w cmd + 1)\<rparr>"

definition mark_ok :: "string \<Rightarrow> 'z rcp_net_scheme \<Rightarrow> 'z rcp_net_scheme" where
  "mark_ok cmd w = w\<lparr>cmd_failures := (cmd_failures w)(cmd := None)\<rparr>"

subsection \<open>The decisions\<close>

datatype verdict = Keep "RcpCameraData \<Rightarrow> RcpCameraData" | Strike | Ignore

text \<open>\<open>raw and len(raw) >= n\<close>\<close>

definition at_least :: "nat \<Rightarrow> bytes option \<Rightarrow> bytes option" where
  "at_least n raw = (case raw of Some bs \<Rightarrow> if bs \<noteq> [] \<and> n \<le> length bs then Some bs else None | None \<Rightarrow> None)"

definition decide_dimmer :: "bytes option \<Rightarrow> exn + verdict" where
  "decide_dimmer raw =
     (if is_xml_envelope raw then Inr Strike
      else case at_least 2 raw of
        Some bs \<Rightarrow>
          let v = be16 (bs ! 0) (bs ! 1) in
          if 0 \<le> v \<and> v \<le> 100 then Inr (Keep (\<lambda>d. d\<lparr>rd_dimmer := Some v\<rparr>)) else Inr Strike
      | None \<Rightarrow> Inr Strike)"

definition decide_privacy :: "bytes option \<Rightarrow> exn + verdict" where
  "decide_privacy raw =
     (if is_xml_envelope raw then Inr Strike
      else case at_least 2 raw of
        Some bs \<Rightarrow> Inr (Keep (\<lambda>d. d\<lparr>rd_privacy := Some (uint (bs ! 1))\<rparr>))
      | None \<Rightarrow> Inr Strike)"

text \<open>The proleptic Gregorian calendar of \<open>datetime\<close>: the days before a date since year 1.\<close>

definition is_leap :: "int \<Rightarrow> bool" where
  "is_leap y \<longleftrightarrow> y mod 4 = 0 \<and> (y mod 100 \<noteq> 0 \<or> y mod 400 = 0)"

definition days_in_month :: "int \<Rightarrow> int \<Rightarrow> int" where
  "days_in_month y m = (if m = 2 then (if is_leap y then 29 else 28) else if m \<in> {4, 6, 9, 11} then 30 else 31)"

definition days_before_year :: "int \<Rightarrow> int" where
  "days_before_year y = (y - 1) * 365 + (y - 1) div 4 - (y - 1) div 100 + (y - 1) div 400"

definition days_before_month :: "int \<Rightarrow> int \<Rightarrow> int" where
  "days_before_month y m = sum_list (map (\<lambda>k. days_in_month y (int k)) [1..<nat m])"

definition utc_micros :: "int \<Rightarrow> int \<Rightarrow> int \<Rightarrow> int \<Rightarrow> int \<Rightarrow> int \<Rightarrow> int" where
  "utc_micros year month day hour minute second =
     ((days_before_year year + days_before_month year month + day - 1) * 86400 + hour * 3600 + minute * 60 + second) * 1000000"

definition clock_fields_ok :: "int \<Rightarrow> int \<Rightarrow> int \<Rightarrow> int \<Rightarrow> int \<Rightarrow> int \<Rightarrow> bool" where
  "clock_fields_ok year month day hour minute second \<longleftrightarrow>
     1970 \<le> year \<and> year \<le> 2100 \<and> 1 \<le> month \<and> month \<le> 12 \<and> 1 \<le> day \<and> day \<le> 31 \<and>
     0 \<le> hour \<and> hour \<le> 23 \<and> 0 \<le> minute \<and> minute \<le> 59 \<and> 0 \<le> second \<and> second \<le> 59"

text \<open>\<open>round((cam_dt - server_dt).total_seconds(), 1)\<close>\<close>

definition clock_offset :: "int \<Rightarrow> int \<Rightarrow> exn + pyfloat" where
  "clock_offset cam_us now_us =
     (case int_true_div (cam_us - now_us) 1000000 of
        Inl e \<Rightarrow> Inl e
      | Inr (Fin q) \<Rightarrow> round_places 1 q
      | Inr y \<Rightarrow> Inr y)"

definition decide_clock :: "rcp_env \<Rightarrow> bytes option \<Rightarrow> exn + verdict" where
  "decide_clock env raw =
     (if is_xml_envelope raw then Inr Strike
      else case at_least 8 raw of
        None \<Rightarrow> Inr Strike
      | Some bs \<Rightarrow>
          let year = be16 (bs ! 0) (bs ! 1); month = uint (bs ! 2); day = uint (bs ! 3);
              hour = uint (bs ! 4); minute = uint (bs ! 5); second = uint (bs ! 6) in
          if \<not> clock_fields_ok year month day hour minute second then Inr Strike
          else if days_in_month year month < day then Inr Strike
          else (case clock_offset (utc_micros year month day hour minute second) (en_utc_now env) of
                  Inl e \<Rightarrow> Inl e
                | Inr y \<Rightarrow> Inr (Keep (\<lambda>d. d\<lparr>rd_clock_offset := Some y\<rparr>))))"

text \<open>\<open>raw.rstrip(b"\x00").decode("ascii", errors="replace").strip()\<close>\<close>

definition nul_text :: "bytes \<Rightarrow> ustring" where
  "nul_text bs = ustrip (ascii_replace (rstrip (\<lambda>b. b = 0) bs))"

definition ip_text :: "bytes \<Rightarrow> ustring" where
  "ip_text bs =
     (if length bs = 4 then ustr (join_with ''.'' (map (\<lambda>b. nat_str (unat b)) bs)) else nul_text bs)"

definition decide_lan_ip :: "bytes option \<Rightarrow> exn + verdict" where
  "decide_lan_ip raw =
     (case raw of
        None \<Rightarrow> Inr Strike
      | Some bs \<Rightarrow>
          if bs = [] then Inr Ignore
          else let ip = ip_text bs in
            if ip \<noteq> [] \<and> ip \<noteq> ustr ''0.0.0.0'' \<and> \<not> starts_with (ustr ''<'') ip
            then Inr (Keep (\<lambda>d. d\<lparr>rd_lan_ip := Some ip\<rparr>)) else Inr Strike)"

definition decide_product_name :: "bytes option \<Rightarrow> exn + verdict" where
  "decide_product_name raw =
     (case raw of
        None \<Rightarrow> Inr Strike
      | Some bs \<Rightarrow>
          if bs = [] then Inr Ignore
          else let name = nul_text bs in
            if name \<noteq> [] \<and> \<not> starts_with (ustr ''<'') name
            then Inr (Keep (\<lambda>d. d\<lparr>rd_product_name := Some name\<rparr>)) else Inr Strike)"

definition ladder :: "bytes \<Rightarrow> int list" where
  "ladder bs =
     map (\<lambda>i. be32 (bs ! (4 * i)) (bs ! (4 * i + 1)) (bs ! (4 * i + 2)) (bs ! (4 * i + 3))) [0..<length bs div 4]"

definition decide_bitrate :: "bytes option \<Rightarrow> exn + verdict" where
  "decide_bitrate raw =
     (if is_xml_envelope raw then Inr Strike
      else case at_least 4 raw of
        None \<Rightarrow> Inr Strike
      | Some bs \<Rightarrow>
          if list_all (\<lambda>v. 100 \<le> v \<and> v \<le> 50000) (ladder bs)
          then Inr (Keep (\<lambda>d. d\<lparr>rd_bitrate := Some (ladder bs)\<rparr>)) else Inr Strike)"

definition decide_alarms :: "rcp_env \<Rightarrow> bytes option \<Rightarrow> exn + verdict" where
  "decide_alarms env raw =
     (if is_xml_envelope raw then Inr Strike
      else case at_least 11 raw of
        None \<Rightarrow> Inr Strike
      | Some bs \<Rightarrow> Inr (Keep (\<lambda>d. d\<lparr>rd_alarm_catalog := Some (parse_alarm_catalog (en_printable env) bs)\<rparr>)))"

definition decide_zones :: "bytes option \<Rightarrow> exn + verdict" where
  "decide_zones raw =
     (case at_least 28 raw of
        Some bs \<Rightarrow> Inr (Keep (\<lambda>d. d\<lparr>rd_motion_zones := Some (parse_motion_zones bs)\<rparr>))
      | None \<Rightarrow> Inr (if raw = None then Strike else Ignore))"

definition decide_coords :: "bytes option \<Rightarrow> exn + verdict" where
  "decide_coords raw =
     (if is_xml_envelope raw then Inr Strike
      else case at_least 16 raw of
        None \<Rightarrow> Inr Strike
      | Some bs \<Rightarrow>
          (case parse_motion_coords bs of
             Inl e \<Rightarrow> Inl e
           | Inr rects \<Rightarrow> Inr (Keep (\<lambda>d. d\<lparr>rd_motion_coords := Some rects\<rparr>))))"

definition decide_cert :: "rcp_env \<Rightarrow> bytes option \<Rightarrow> exn + verdict" where
  "decide_cert env raw =
     (case at_least 51 raw of
        Some bs \<Rightarrow> Inr (Keep (\<lambda>d. d\<lparr>rd_tls_cert := Some (parse_tls_cert (en_load_cert env) bs)\<rparr>))
      | None \<Rightarrow> Inr (if raw = None then Strike else Ignore))"

definition decide_services :: "rcp_env \<Rightarrow> bytes option \<Rightarrow> exn + verdict" where
  "decide_services env raw =
     (if is_xml_envelope raw then Inr Strike
      else case at_least 11 raw of
        None \<Rightarrow> Inr Strike
      | Some bs \<Rightarrow> Inr (Keep (\<lambda>d. d\<lparr>rd_network_services := Some (parse_network_services (en_printable env) bs)\<rparr>)))"

definition decide_iva :: "bytes option \<Rightarrow> exn + verdict" where
  "decide_iva raw =
     (if is_xml_envelope raw then Inr Strike
      else case at_least 6 raw of
        None \<Rightarrow> Inr Strike
      | Some bs \<Rightarrow> Inr (Keep (\<lambda>d. d\<lparr>rd_iva_catalog := Some (parse_iva_catalog bs)\<rparr>)))"

subsection \<open>One guarded block, and the twelve of them\<close>

record rcp_cmd =
  rc_command :: string
  rc_type :: string
  rc_num :: int
  rc_decide :: "bytes option \<Rightarrow> exn + verdict"

definition settle :: "string \<Rightarrow> RcpCameraData \<Rightarrow> verdict \<Rightarrow> ('z rcp_net_scheme, RcpCameraData) io" where
  "settle cmd d v = (\<lambda>w.
     case v of
       Keep f \<Rightarrow> (Inr (f d), mark_ok cmd w)
     | Strike \<Rightarrow> (Inr d, mark_fail cmd w)
     | Ignore \<Rightarrow> (Inr d, w))"

definition guarded_read ::
    "server \<Rightarrow> string \<Rightarrow> string \<Rightarrow> rcp_cmd \<Rightarrow> RcpCameraData \<Rightarrow> ('z rcp_net_scheme, RcpCameraData) io" where
  "guarded_read srv base session_id c d = (\<lambda>w.
     if skip_cmd w (rc_command c) then (Inr d, w)
     else
       catch_io
         (bind_io (rcp_read srv base (rc_command c) session_id (rc_type c) (rc_num c) True) (\<lambda>raw.
          bind_io (lift (rc_decide c raw)) (settle (rc_command c) d)))
         (\<lambda>_. ret d) w)"

definition octet_cmd :: "string \<Rightarrow> (bytes option \<Rightarrow> exn + verdict) \<Rightarrow> rcp_cmd" where
  "octet_cmd cmd decide = \<lparr>rc_command = cmd, rc_type = ''P_OCTET'', rc_num = 0, rc_decide = decide\<rparr>"

definition rcp_commands :: "rcp_env \<Rightarrow> rcp_cmd list" where
  "rcp_commands env =
     [\<lparr>rc_command = ''0x0c22'', rc_type = ''T_WORD'', rc_num = 1, rc_decide = decide_dimmer\<rparr>,
      octet_cmd ''0x0d00'' decide_privacy,
      octet_cmd ''0x0a0f'' (decide_clock env),
      octet_cmd ''0x0a36'' decide_lan_ip,
      octet_cmd ''0x0aea'' decide_product_name,
      octet_cmd ''0x0c81'' decide_bitrate,
      octet_cmd ''0x0c38'' (decide_alarms env),
      octet_cmd ''0x0c00'' decide_zones,
      octet_cmd ''0x0c0a'' decide_coords,
      octet_cmd ''0x0b91'' (decide_cert env),
      octet_cmd ''0x0c62'' (decide_services env),
      octet_cmd ''0x0b60'' decide_iva]"

fun read_all :: "server \<Rightarrow> string \<Rightarrow> string \<Rightarrow> rcp_cmd list \<Rightarrow> RcpCameraData \<Rightarrow> ('z rcp_net_scheme, RcpCameraData) io" where
  "read_all srv base session_id [] d = ret d"
| "read_all srv base session_id (c # cs) d =
     bind_io (guarded_read srv base session_id c d) (read_all srv base session_id cs)"

text \<open>\<open>osrv\<close> answers the session's own client, \<open>srv\<close> the one the caller passed.\<close>

definition fetch_rcp_camera_data ::
    "server \<Rightarrow> server \<Rightarrow> rcp_env \<Rightarrow> rat \<Rightarrow> string \<Rightarrow> string \<Rightarrow> ('z rcp_net_scheme, RcpCameraData option) io" where
  "fetch_rcp_camera_data osrv srv env now proxy_host proxy_hash =
     bind_io (get_cached_rcp_session osrv now proxy_host proxy_hash) (\<lambda>session_id.
       case session_id of
         None \<Rightarrow> ret None
       | Some s \<Rightarrow>
           if s = [] then ret None
           else bind_io (read_all srv (rcp_base_url proxy_host proxy_hash) s (rcp_commands env) no_data) (\<lambda>d. ret (Some d)))"

subsection \<open>One block\<close>

lemma strikes_simps [simp]:
  "strikes (w\<lparr>hist := h\<rparr>) cmd = strikes w cmd"
  "strikes (drop_session k w) cmd = strikes w cmd"
  "strikes (store_session k s e w) cmd = strikes w cmd"
  "strikes (mark_fail cmd w) cmd' = (if cmd' = cmd then Suc (strikes w cmd) else strikes w cmd')"
  "strikes (mark_ok cmd w) cmd' = (if cmd' = cmd then 0 else strikes w cmd')"
  "hist (mark_fail cmd w) = hist w" "hist (mark_ok cmd w) = hist w"
  by (simp_all add: strikes_def mark_fail_def mark_ok_def drop_session_def store_session_def)

lemma settle_simps [simp]:
  "fst (settle cmd d v w) = Inr (case v of Keep f \<Rightarrow> f d | _ \<Rightarrow> d)"
  "hist (snd (settle cmd d v w)) = hist w"
  by (simp_all add: settle_def split: verdict.split)

definition cmd_request :: "string \<Rightarrow> string \<Rightarrow> rcp_cmd \<Rightarrow> request" where
  "cmd_request base session_id c = read_request base (rc_command c) session_id (rc_type c) (rc_num c)"

text \<open>The verdict of a block that is not skipped; an exception anywhere in it is no verdict.\<close>

definition verdict_of :: "server \<Rightarrow> string \<Rightarrow> string \<Rightarrow> rcp_cmd \<Rightarrow> 'z rcp_net_scheme \<Rightarrow> verdict" where
  "verdict_of srv base session_id c w =
     (case fst (rcp_read srv base (rc_command c) session_id (rc_type c) (rc_num c) True w) of
        Inl _ \<Rightarrow> Ignore
      | Inr raw \<Rightarrow> (case rc_decide c raw of Inl _ \<Rightarrow> Ignore | Inr v \<Rightarrow> v))"

lemma guarded_read_run:
  "guarded_read srv base session_id c d w =
     (if skip_cmd w (rc_command c) then (Inr d, w)
      else settle (rc_command c) d (verdict_of srv base session_id c w)
        (snd (rcp_read srv base (rc_command c) session_id (rc_type c) (rc_num c) True w)))"
proof (cases "rcp_read srv base (rc_command c) session_id (rc_type c) (rc_num c) True w")
  case (Pair r w1)
  show ?thesis
  proof (cases r)
    case (Inl e)
    with Pair show ?thesis
      by (simp add: guarded_read_def verdict_of_def bind_io_Inl catch_io_Inl ret_def settle_def)
  next
    case (Inr raw)
    show ?thesis
    proof (cases "rc_decide c raw")
      case (Inl e)
      with Pair Inr show ?thesis
        by (simp add: guarded_read_def verdict_of_def bind_io_def catch_io_def lift_def ret_def settle_def)
    next
      case v: (Inr v)
      obtain x w2 where x: "settle (rc_command c) d v w1 = (x, w2)" by fastforce
      then have "\<exists>y. x = Inr y" by (metis fst_conv settle_simps(1))
      with Pair Inr v x show ?thesis
        by (auto simp: guarded_read_def verdict_of_def bind_io_def catch_io_def lift_def)
    qed
  qed
qed

lemma guarded_read_hist:
  "hist (snd (guarded_read srv base session_id c d w)) =
     hist w @ (if skip_cmd w (rc_command c) then [] else [cmd_request base session_id c])"
  by (simp add: guarded_read_run rcp_read_traffic cmd_request_def)

text \<open>How a block counts: only its own counter moves, and only by its verdict.\<close>

lemma guarded_read_strikes:
  "strikes (snd (guarded_read srv base session_id c d w)) cmd =
     (if cmd \<noteq> rc_command c \<or> skip_cmd w (rc_command c) then strikes w cmd
      else case verdict_of srv base session_id c w of
        Keep f \<Rightarrow> 0 | Strike \<Rightarrow> Suc (strikes w cmd) | Ignore \<Rightarrow> strikes w cmd)"
proof -
  let ?w1 = "snd (rcp_read srv base (rc_command c) session_id (rc_type c) (rc_num c) True w)"
  have "strikes ?w1 k = strikes w k" for k by (simp add: strikes_def rcp_read_traffic(2))
  then show ?thesis
    by (simp add: guarded_read_run settle_def split: verdict.split)
qed

lemma guarded_read_data:
  "\<exists>d'. fst (guarded_read srv base session_id c d w) = Inr d' \<and>
     (d' = d \<or> (\<exists>raw f. rc_decide c raw = Inr (Keep f) \<and> d' = f d))"
  by (auto simp: guarded_read_run verdict_of_def split: verdict.split sum.split)

subsection \<open>All blocks\<close>

lemma read_all_data:
  assumes "\<And>c raw f d. c \<in> set cs \<Longrightarrow> rc_decide c raw = Inr (Keep f) \<Longrightarrow> ok d \<Longrightarrow> ok (f d)" "ok d"
  shows "\<exists>d'. fst (read_all srv base session_id cs d w) = Inr d' \<and> ok d'"
  using assms
proof (induction cs arbitrary: d w)
  case Nil
  then show ?case by (simp add: ret_def)
next
  case (Cons c cs)
  obtain d1 w1 where g: "guarded_read srv base session_id c d w = (Inr d1, w1)"
      and "d1 = d \<or> (\<exists>raw f. rc_decide c raw = Inr (Keep f) \<and> d1 = f d)"
    using guarded_read_data [of srv base session_id c d w] by (cases "guarded_read srv base session_id c d w") auto
  then have "ok d1" using Cons.prems by auto
  then have "\<exists>d'. fst (read_all srv base session_id cs d1 w1) = Inr d' \<and> ok d'"
    using Cons.prems(1) by (intro Cons.IH) auto
  with g show ?case by (simp add: bind_io_Inr)
qed

lemma read_all_hist:
  "\<exists>asked. subseq asked cs \<and>
     hist (snd (read_all srv base session_id cs d w)) = hist w @ map (cmd_request base session_id) asked"
proof (induction cs arbitrary: d w)
  case Nil
  show ?case by (simp add: ret_def)
next
  case (Cons c cs)
  obtain d1 w1 where g: "guarded_read srv base session_id c d w = (Inr d1, w1)"
    using guarded_read_data [of srv base session_id c d w] by (cases "guarded_read srv base session_id c d w") auto
  then have h: "hist w1 = hist w @ (if skip_cmd w (rc_command c) then [] else [cmd_request base session_id c])"
    using guarded_read_hist [of srv base session_id c d w] by simp
  from Cons [of d1 w1] obtain asked where "subseq asked cs"
    "hist (snd (read_all srv base session_id cs d1 w1)) = hist w1 @ map (cmd_request base session_id) asked" by blast
  with g h show ?case
    by (intro exI [of _ "(if skip_cmd w (rc_command c) then [] else [c]) @ asked"]) (simp add: bind_io_Inr list_emb_Cons)
qed

text \<open>The requests for one command, and the budget of them its counter still leaves.\<close>

definition for_cmd :: "string \<Rightarrow> request \<Rightarrow> bool" where
  "for_cmd cmd rq \<longleftrightarrow> map_of (rq_params rq) ''command'' = Some cmd"

definition asked_for :: "string \<Rightarrow> 'z net_scheme \<Rightarrow> nat" where
  "asked_for cmd w = length (filter (for_cmd cmd) (hist w))"

lemma for_cmd_request [simp]: "for_cmd cmd (cmd_request base session_id c) \<longleftrightarrow> rc_command c = cmd"
  by (simp add: for_cmd_def cmd_request_def read_request_def mk_request_def rcp_params_def)

text \<open>A server that answers the command with an error only: a fault, an error status or an RCP error.\<close>

definition refuses :: "server \<Rightarrow> string \<Rightarrow> bool" where
  "refuses srv cmd \<longleftrightarrow>
     (\<forall>h rq. for_cmd cmd rq \<longrightarrow>
        (case srv h rq of
           Inl e \<Rightarrow> is_net_error e
         | Inr r \<Rightarrow> rs_status r \<noteq> 200 \<or> (\<exists>raw. rs_read r = Inr raw \<and> err_code raw \<noteq> None)))"

lemma refuses_read:
  assumes "refuses srv cmd"
  shows "fst (rcp_read srv base cmd session_id tp num caching w) = Inr None"
proof -
  let ?rq = "read_request base cmd session_id tp num"
  define f where "f = (\<lambda>w :: 'a rcp_net_scheme. snd (drop_cached_session caching base w))"
  have d: "drop_cached_session caching base = (\<lambda>w. (Inr (), f w))"
    by (simp add: f_def drop_cached_session_def Let_def fun_eq_iff)
  have "for_cmd cmd ?rq" by (simp add: for_cmd_def read_request_def mk_request_def rcp_params_def)
  with assms have "case srv (hist w) ?rq of Inl e \<Rightarrow> is_net_error e
      | Inr r \<Rightarrow> rs_status r \<noteq> 200 \<or> (\<exists>raw. rs_read r = Inr raw \<and> err_code raw \<noteq> None)"
    unfolding refuses_def by blast
  then show ?thesis
    by (cases "srv (hist w) ?rq") (auto simp: rcp_read_def send_def io_defs d)
qed

lemma guarded_read_budget:
  fixes w :: "'z rcp_net_scheme"
  assumes "refuses srv cmd" "rc_decide c None = Inr Strike"
    "guarded_read srv base session_id c d w = (r, w')"
  shows "asked_for cmd w' + (3 - strikes w' cmd) = asked_for cmd w + (3 - strikes w cmd)"
proof -
  have v: "rc_command c = cmd \<Longrightarrow> verdict_of srv base session_id c w = Strike"
    using assms(2) by (simp add: verdict_of_def refuses_read [OF assms(1)])
  have "asked_for cmd w' = asked_for cmd w + (if rc_command c = cmd \<and> \<not> skip_cmd w cmd then 1 else 0)"
    using guarded_read_hist [of srv base session_id c d w] assms(3) by (auto simp: asked_for_def)
  moreover have "strikes w' cmd = strikes w cmd + (if rc_command c = cmd \<and> \<not> skip_cmd w cmd then 1 else 0)"
    using guarded_read_strikes [of srv base session_id c d w cmd] assms(3) v by auto
  ultimately show ?thesis by (auto simp: skip_cmd_def)
qed

lemma read_all_budget:
  fixes w :: "'z rcp_net_scheme"
  assumes "refuses srv cmd" "\<forall>c \<in> set cs. rc_decide c None = Inr Strike"
  shows "asked_for cmd (snd (read_all srv base session_id cs d w)) + (3 - strikes (snd (read_all srv base session_id cs d w)) cmd) =
    asked_for cmd w + (3 - strikes w cmd)"
  using assms(2)
proof (induction cs arbitrary: d w)
  case Nil
  show ?case by (simp add: ret_def)
next
  case (Cons c cs)
  obtain d1 w1 where g: "guarded_read srv base session_id c d w = (Inr d1, w1)"
    using guarded_read_data [of srv base session_id c d w] by (cases "guarded_read srv base session_id c d w") auto
  have "asked_for cmd w1 + (3 - strikes w1 cmd) = asked_for cmd w + (3 - strikes w cmd)"
    by (rule guarded_read_budget [OF assms(1) _ g]) (use Cons.prems in simp)
  with Cons.IH [of d1 w1] Cons.prems g show ?case by (simp add: bind_io_Inr)
qed

lemma commands_strike: "\<forall>c \<in> set (rcp_commands env). rc_decide c None = Inr Strike"
  by (simp add: rcp_commands_def octet_cmd_def decide_dimmer_def decide_privacy_def decide_clock_def decide_lan_ip_def
      decide_product_name_def decide_bitrate_def decide_alarms_def decide_zones_def decide_coords_def decide_cert_def
      decide_services_def decide_iva_def at_least_def is_xml_envelope_def)

subsection \<open>What the data can hold\<close>

definition opt_ok :: "('a \<Rightarrow> bool) \<Rightarrow> 'a option \<Rightarrow> bool" where
  "opt_ok P x \<longleftrightarrow> (case x of None \<Rightarrow> True | Some v \<Rightarrow> P v)"

lemma opt_ok_simps [simp]: "opt_ok P None" "opt_ok P (Some v) \<longleftrightarrow> P v"
  by (simp_all add: opt_ok_def)

definition host_text :: "ustring \<Rightarrow> bool" where
  "host_text t \<longleftrightarrow> t \<noteq> [] \<and> \<not> starts_with (ustr ''<'') t"

definition finite_between :: "rat \<Rightarrow> rat \<Rightarrow> pyfloat \<Rightarrow> bool" where
  "finite_between lo hi y \<longleftrightarrow> (case y of Fin q \<Rightarrow> lo \<le> q \<and> q \<le> hi | _ \<Rightarrow> False)"

definition word_ok :: "int \<Rightarrow> bool" where
  "word_ok x \<longleftrightarrow> 0 \<le> x \<and> x \<le> 65535"

definition name_ok :: "(nat \<Rightarrow> bool) \<Rightarrow> ustring \<Rightarrow> bool" where
  "name_ok printable t \<longleftrightarrow> 2 \<le> length t \<and> list_all (\<lambda>u. printable u \<or> u = 32) t"

definition alarm_types :: "string list" where
  "alarm_types = [''unknown'', ''virtual'', ''flame'', ''smoke'', ''audio'', ''signal'', ''storage'', ''motion'',
     ''reference'', ''config'', ''global_change'', ''task'']"

definition rect_ok :: "MotionRect \<Rightarrow> bool" where
  "rect_ok r \<longleftrightarrow> list_all (finite_between 0 (65541 / 100)) [mr_x1 r, mr_y1 r, mr_x2 r, mr_y2 r]"

text \<open>The range of each of the twelve fields.\<close>

definition data_ok :: "(nat \<Rightarrow> bool) \<Rightarrow> RcpCameraData \<Rightarrow> bool" where
  "data_ok printable d \<longleftrightarrow>
     opt_ok (\<lambda>v. 0 \<le> v \<and> v \<le> 100) (rd_dimmer d) \<and>
     opt_ok (\<lambda>v. 0 \<le> v \<and> v \<le> 255) (rd_privacy d) \<and>
     opt_ok is_finite (rd_clock_offset d) \<and>
     opt_ok (\<lambda>t. host_text t \<and> t \<noteq> ustr ''0.0.0.0'') (rd_lan_ip d) \<and>
     opt_ok host_text (rd_product_name d) \<and>
     opt_ok (\<lambda>l. l \<noteq> [] \<and> list_all (\<lambda>v. 100 \<le> v \<and> v \<le> 50000) l) (rd_bitrate d) \<and>
     opt_ok (\<lambda>as. distinct (map al_id as) \<and> list_all (\<lambda>a. name_ok printable (al_name a) \<and> al_type a \<in> set alarm_types) as)
       (rd_alarm_catalog d) \<and>
     opt_ok (\<lambda>zs. zs \<noteq> [] \<and> length zs \<le> 5 \<and> map mz_zone_id zs = [0..<length zs] \<and>
       list_all (\<lambda>z. mz_size z = 28 \<and> length (mz_raw_hex z) = 56) zs) (rd_motion_zones d) \<and>
     opt_ok (\<lambda>rs. 2 \<le> length rs \<and> list_all rect_ok rs) (rd_motion_coords d) \<and>
     opt_ok (\<lambda>c. dict_get c ''raw_size'' \<noteq> None) (rd_tls_cert d) \<and>
     opt_ok (list_all (name_ok printable)) (rd_network_services d) \<and>
     opt_ok (\<lambda>ms. length ms \<le> 65 \<and> list_all (\<lambda>m. 0 < iv_module_id m \<and> word_ok (iv_module_id m) \<and> word_ok (iv_version m) \<and>
       word_ok (iv_flags m) \<and> (iv_active m \<longleftrightarrow> odd (iv_flags m))) ms) (rd_iva_catalog d)"

lemma no_data_ok: "data_ok printable no_data"
  by (simp add: data_ok_def no_data_def)

definition keeps_ok :: "(nat \<Rightarrow> bool) \<Rightarrow> (bytes option \<Rightarrow> exn + verdict) \<Rightarrow> bool" where
  "keeps_ok printable decide \<longleftrightarrow>
     (\<forall>raw f d. decide raw = Inr (Keep f) \<longrightarrow> data_ok printable d \<longrightarrow> data_ok printable (f d))"

lemma at_least_Some [simp]: "at_least n raw = Some bs \<longleftrightarrow> raw = Some bs \<and> bs \<noteq> [] \<and> n \<le> length bs"
  by (auto simp: at_least_def split: option.splits if_splits)

lemma iva_bounds:
  "length (parse_iva_catalog raw) \<le> 65 \<and> list_all (\<lambda>m. 0 < iv_module_id m \<and> word_ok (iv_module_id m) \<and> word_ok (iv_version m) \<and>
     word_ok (iv_flags m) \<and> (iv_active m \<longleftrightarrow> odd (iv_flags m))) (parse_iva_catalog raw)"
proof -
  have "length (parse_iva_catalog raw) \<le> length [0..<min (length raw div 6) 65]"
    unfolding parse_iva_catalog_def by (metis length_filter_le length_map)
  moreover have "word_ok (word_at c j)" for c j using word_at_range [of c j] by (simp add: word_ok_def)
  ultimately show ?thesis by (auto simp: parse_iva_catalog_def list_all_iff parse_iva_entry_def)
qed

lemma to_float_nonneg: "0 \<le> q \<Longrightarrow> to_float q = Inr (Fin r) \<Longrightarrow> 0 \<le> r"
proof -
  assume q: "0 \<le> q" "to_float q = Inr (Fin r)"
  have "0 \<le> round_half_even (q / pow2 (ulp_exp q))" using q(1) by (intro round_half_even_mono_int) (simp add: zero_le_divide_iff less_imp_le)
  then have "0 \<le> fl_pos q" by (simp add: fl_pos_def Let_def less_imp_le)
  with q show ?thesis by (auto simp: to_float_def Let_def split: if_splits)
qed

lemma percent_range: "0 \<le> x \<Longrightarrow> x < 65536 \<Longrightarrow> percent x = Inr y \<Longrightarrow> finite_between 0 (65541 / 100) y"
proof -
  assume x: "0 \<le> x" "x < 65536" "percent x = Inr y"
  from percent_close [OF x(1,2)] x(3) obtain q where y: "y = Fin q" "\<bar>q - of_int x / 100\<bar> \<le> 51 / 1000" by auto
  obtain r where r: "int_true_div x 100 = Inr (Fin r)" "round_places 1 r = Inr (Fin q)"
    using x(3) y(1) by (auto simp: percent_def int_true_div_def to_float_def Let_def split: if_splits)
  have "0 \<le> r" using r(1) x(1) to_float_nonneg [of "of_int x / 100" r] by (simp add: int_true_div_def)
  then have "0 \<le> round_half_even (r * 10 ^ 1)" by (intro round_half_even_mono_int) simp
  then have "0 \<le> q"
    using r(2) to_float_nonneg [of "of_int (round_half_even (r * 10 ^ 1)) / 10 ^ 1" q] by (simp add: round_places_def)
  moreover have "(of_int x :: rat) \<le> 65535" using x(2) by (simp add: of_int_le_iff [of x 65535, simplified])
  moreover have "q - of_int x / 100 \<le> 51 / 1000" using y(2) by (rule abs_le_D1)
  ultimately have "0 \<le> q \<and> q \<le> 65541 / 100" by linarith
  then show ?thesis using y(1) by (simp add: finite_between_def)
qed

lemma coords_ok:
  assumes "parse_motion_coords raw = Inr rects"
  shows "length rects = length raw div 8 \<and> list_all rect_ok rects"
proof -
  have all2: "list_all2 (\<lambda>z r. parse_rect (chunk 8 raw z) = Inr r) [0..<length raw div 8] rects"
    using assms unfolding parse_motion_coords_def map_exn_Inr_iff .
  have w: "percent (word_at c j) = Inr y \<Longrightarrow> finite_between 0 (65541 / 100) y" for c j y
    using percent_range word_at_range by blast
  have "rect_ok r" if "parse_rect c = Inr r" for c r
    using that by (auto dest!: w simp: parse_rect_def rect_ok_def split: sum.splits list.splits)
  with all2 show ?thesis using list_all2_lengthD [OF all2] by (auto simp: list_all2_conv_all_nth list_all_length)
qed

lemma cert_keeps_size: "dict_get info ''raw_size'' \<noteq> None \<Longrightarrow> dict_get (fst (cert_fields attrs info)) ''raw_size'' \<noteq> None"
proof (induction attrs info rule: cert_fields.induct)
  case (2 k v rest info)
  then show ?case by (cases v) (auto simp: dict_get_def dict_set_def update_conv')
qed simp

lemma cert_size: "dict_get (parse_tls_cert load raw) ''raw_size'' \<noteq> None"
proof -
  let ?info = "[(''raw_size'', JInt (int (length raw)))]"
  have "dict_get ?info ''raw_size'' \<noteq> None" by (simp add: dict_get_def)
  then have "dict_get (fst (case load raw of Inl e \<Rightarrow> (?info, Some e) | Inr attrs \<Rightarrow> cert_fields attrs ?info)) ''raw_size'' \<noteq> None"
    using cert_keeps_size by (simp split: sum.split)
  then show ?thesis
    by (auto simp: parse_tls_cert_def Let_def dict_get_def dict_set_def update_conv' split: prod.split)
qed

lemma clean_ok: "2 \<le> length (clean_name printable p) \<Longrightarrow> name_ok printable (clean_name printable p)"
  by (auto simp: name_ok_def clean_name_def keeps_char_def list_all_iff)

lemma services_ok: "list_all (name_ok printable) (parse_network_services printable raw)"
  by (auto simp: parse_network_services_def list_all_iff intro!: clean_ok)

lemma alarms_ok:
  "distinct (map al_id (parse_alarm_catalog printable raw)) \<and>
   list_all (\<lambda>a. name_ok printable (al_name a) \<and> al_type a \<in> set alarm_types) (parse_alarm_catalog printable raw)"
proof -
  have types: "insert ''unknown'' (snd ` set alarm_keywords) = set alarm_types"
    by (simp add: alarm_keywords_def alarm_types_def)
  have "name_ok printable (al_name a) \<and> al_type a \<in> set alarm_types"
    if "a \<in> set (parse_alarm_catalog printable raw)" for a
    using alarms_from_names [OF that [unfolded parse_alarm_catalog_def]] alarm_type_known [of "al_name a"]
    unfolding types by (auto simp: name_ok_def keeps_char_def list_all_iff)
  then show ?thesis using alarms_from_distinct by (simp add: parse_alarm_catalog_def list_all_iff)
qed

lemma ladder_nonempty: "4 \<le> length bs \<Longrightarrow> ladder bs \<noteq> []"
  by (simp add: ladder_def)

lemma keeps_dimmer: "keeps_ok printable decide_dimmer"
  by (auto simp: keeps_ok_def decide_dimmer_def data_ok_def Let_def split: if_splits option.splits)

lemma keeps_privacy: "keeps_ok printable decide_privacy"
proof -
  have "uint (b :: byte) \<le> 255" for b using uint_byte_less [of b] by linarith
  then show ?thesis
    by (auto simp: keeps_ok_def decide_privacy_def data_ok_def split: if_splits option.splits)
qed

lemma to_float_finite: "to_float q = Inr y \<Longrightarrow> is_finite y"
  by (auto simp: to_float_def Let_def split: if_splits)

lemma clock_offset_finite: "clock_offset a b = Inr y \<Longrightarrow> is_finite y"
  by (auto simp: clock_offset_def round_places_def int_true_div_def dest: to_float_finite split: sum.splits pyfloat.splits)

lemma keeps_clock: "keeps_ok printable (decide_clock env)"
  by (auto simp: keeps_ok_def decide_clock_def data_ok_def Let_def dest: clock_offset_finite split: if_splits option.splits sum.splits)

lemma keeps_lan_ip: "keeps_ok printable decide_lan_ip"
  by (auto simp: keeps_ok_def decide_lan_ip_def data_ok_def host_text_def Let_def split: if_splits option.splits)

lemma keeps_product_name: "keeps_ok printable decide_product_name"
  by (auto simp: keeps_ok_def decide_product_name_def data_ok_def host_text_def Let_def split: if_splits option.splits)

lemma keeps_bitrate: "keeps_ok printable decide_bitrate"
  by (auto simp: keeps_ok_def decide_bitrate_def data_ok_def ladder_nonempty split: if_splits option.splits)

lemma keeps_alarms: "keeps_ok (en_printable env) (decide_alarms env)"
  using alarms_ok
  by (auto simp: keeps_ok_def decide_alarms_def data_ok_def split: if_splits option.splits)

lemma zones_ok:
  "length (parse_motion_zones bs) = min (length bs div 28) 5 \<and>
   map mz_zone_id (parse_motion_zones bs) = [0..<length (parse_motion_zones bs)] \<and>
   list_all (\<lambda>z. mz_size z = 28 \<and> length (mz_raw_hex z) = 56) (parse_motion_zones bs)"
proof -
  have l: "length (parse_motion_zones bs) = min (length bs div 28) 5" by (simp add: parse_motion_zones_def)
  show ?thesis using motion_zones_lossless [of bs] unfolding l by simp
qed

lemma keeps_zones: "keeps_ok printable decide_zones"
proof -
  have "28 \<le> length bs \<Longrightarrow> parse_motion_zones bs \<noteq> []" "length (parse_motion_zones bs) \<le> 5" for bs
    by (simp_all add: parse_motion_zones_def)
  then show ?thesis
    using zones_ok by (auto simp: keeps_ok_def decide_zones_def data_ok_def split: if_splits option.splits)
qed

lemma keeps_coords: "keeps_ok printable decide_coords"
  by (auto simp: keeps_ok_def decide_coords_def data_ok_def dest!: coords_ok split: if_splits option.splits sum.splits)

lemma keeps_cert: "keeps_ok printable (decide_cert env)"
  by (auto simp: keeps_ok_def decide_cert_def data_ok_def cert_size [simplified] split: if_splits option.splits)

lemma keeps_services: "keeps_ok (en_printable env) (decide_services env)"
  by (auto simp: keeps_ok_def decide_services_def data_ok_def services_ok split: if_splits option.splits)

lemma keeps_iva: "keeps_ok printable decide_iva"
  using iva_bounds
  by (auto simp: keeps_ok_def decide_iva_def data_ok_def split: if_splits option.splits)

lemmas keeps_all = keeps_dimmer keeps_privacy keeps_clock keeps_lan_ip keeps_product_name keeps_bitrate keeps_alarms
  keeps_zones keeps_coords keeps_cert keeps_services keeps_iva

lemma commands_keep: "\<forall>c \<in> set (rcp_commands env). keeps_ok (en_printable env) (rc_decide c)"
  by (simp add: rcp_commands_def octet_cmd_def keeps_all)

subsection \<open>A whole fetch, and many of them\<close>

lemma read_all_commands:
  "\<exists>d. fst (read_all srv base s (rcp_commands env) no_data w) = Inr d \<and> data_ok (en_printable env) d"
  by (rule read_all_data) (use commands_keep no_data_ok in \<open>auto simp: keeps_ok_def\<close>)

lemma fetch_run:
  assumes "get_cached_rcp_session osrv now host k w = (r, w1)"
  shows "fetch_rcp_camera_data osrv srv env now host k w =
    (case r of
       Inl e \<Rightarrow> (Inl e, w1)
     | Inr None \<Rightarrow> (Inr None, w1)
     | Inr (Some s) \<Rightarrow>
         if s = [] then (Inr None, w1)
         else (map_sum id Some (fst (read_all srv (rcp_base_url host k) s (rcp_commands env) no_data w1)),
               snd (read_all srv (rcp_base_url host k) s (rcp_commands env) no_data w1)))"
proof (cases r)
  case (Inl e)
  with assms show ?thesis by (simp add: fetch_rcp_camera_data_def bind_io_Inl)
next
  case (Inr so)
  show ?thesis
  proof (cases so)
    case None
    with assms Inr show ?thesis by (simp add: fetch_rcp_camera_data_def bind_io_Inr ret_def)
  next
    case (Some s)
    obtain d w2 where "read_all srv (rcp_base_url host k) s (rcp_commands env) no_data w1 = (Inr d, w2)"
      using read_all_commands [of srv "rcp_base_url host k" s env w1]
      by (cases "read_all srv (rcp_base_url host k) s (rcp_commands env) no_data w1") auto
    with assms Inr Some show ?thesis by (simp add: fetch_rcp_camera_data_def bind_io_Inr ret_def)
  qed
qed

record fetch_round =
  fr_osrv :: server
  fr_srv :: server
  fr_env :: rcp_env
  fr_now :: rat
  fr_host :: string
  fr_hash :: string

definition fetch_once :: "fetch_round \<Rightarrow> 'z rcp_net_scheme \<Rightarrow> 'z rcp_net_scheme" where
  "fetch_once f w =
     snd (fetch_rcp_camera_data (fr_osrv f) (fr_srv f) (fr_env f) (fr_now f) (fr_host f) (fr_hash f) w)"

lemma handshake_not_for_cmd:
  assumes "handshake_traffic base new" "cmd \<notin> {''0xff0c'', ''0xff0d''}"
  shows "filter (for_cmd cmd) new = []"
  using assms
  by (auto simp: handshake_traffic_def for_cmd_def open_request_def ack_request_def mk_request_def rcp_params_def)

lemma fetch_once_budget:
  fixes w :: "'z rcp_net_scheme"
  assumes "refuses (fr_srv f) cmd" "cmd \<notin> {''0xff0c'', ''0xff0d''}"
  shows "asked_for cmd (fetch_once f w) + (3 - strikes (fetch_once f w) cmd) = asked_for cmd w + (3 - strikes w cmd)"
proof -
  obtain r w1 where g: "get_cached_rcp_session (fr_osrv f) (fr_now f) (fr_host f) (fr_hash f) w = (r, w1)" by fastforce
  from get_cached_frame [of "fr_osrv f" "fr_now f" "fr_host f" "fr_hash f" w] g obtain new where
    "hist w1 = hist w @ new" "new = [] \<or> handshake_traffic (rcp_base_url (fr_host f) (fr_hash f)) new"
    "cmd_failures w1 = cmd_failures w" by auto
  then have "asked_for cmd w1 = asked_for cmd w" "strikes w1 cmd = strikes w cmd"
    using handshake_not_for_cmd [OF _ assms(2)] by (auto simp: asked_for_def strikes_def)
  moreover have "asked_for cmd (fetch_once f w) + (3 - strikes (fetch_once f w) cmd) = asked_for cmd w1 + (3 - strikes w1 cmd)"
    using read_all_budget [OF assms(1) commands_strike, of "rcp_base_url (fr_host f) (fr_hash f)" _ "fr_env f" no_data w1]
    unfolding fetch_once_def fetch_run [OF g] by (simp split: sum.split option.split)
  ultimately show ?thesis by simp
qed

lemma fetch_many_budget:
  assumes "\<forall>f \<in> set fs. refuses (fr_srv f) cmd" "cmd \<notin> {''0xff0c'', ''0xff0d''}"
  shows "asked_for cmd (fold fetch_once fs w) + (3 - strikes (fold fetch_once fs w) cmd) = asked_for cmd w + (3 - strikes w cmd)"
  using assms(1)
proof (induction fs arbitrary: w)
  case (Cons f fs)
  then show ?case using fetch_once_budget [OF _ assms(2), of f w] by simp
qed simp

subsection \<open>Properties\<close>

text \<open>C13
  Once a session is open a fetch never raises, whatever the camera answers, the certificate loader
  does and the clock says, and each of the twelve fields is unset or in its range: the dimmer in
  0..100; the privacy byte in 0..255; a finite clock offset; an address and a product name that are
  neither blank nor XML, the address not 0.0.0.0; a non-empty bitrate ladder within 100..50000; alarms
  with distinct ids, printable names of at least two characters and one of the twelve types; one to
  five zones numbered from 0, each of 28 bytes; at least two rectangles whose coordinates are finite
  and between 0 and 655.41 (the documented percentage, up to 100, is not enforced); a certificate with
  its size; printable services of at least two characters; at most 65 IVA modules of 16-bit words with
  positive ids, active when the flag is odd.\<close>

theorem fetch_total:
  assumes "get_cached_rcp_session osrv now host k w = (Inr x, w1)"
  shows "\<exists>y. fst (fetch_rcp_camera_data osrv srv env now host k w) = Inr y \<and> opt_ok (data_ok (en_printable env)) y"
proof (cases x)
  case (Some s)
  then show ?thesis
    using read_all_commands [of srv "rcp_base_url host k" s env w1]
    unfolding fetch_run [OF assms] by auto
qed (simp add: fetch_run [OF assms])

definition sample_env :: rcp_env where
  "sample_env = \<lparr>en_utc_now = 0, en_printable = (\<lambda>_. True), en_load_cert = (\<lambda>_. Inl (ValueError []))\<rparr>"

theorem fetch_total_witness:
  "\<exists>y. fst (fetch_rcp_camera_data sample_proxy (\<lambda>_ _. Inl TimeoutError) sample_env 10 ''h'' ''k'' idle_net) = Inr y \<and>
     opt_ok (data_ok (en_printable sample_env)) y"
proof -
  obtain w' where g: "get_cached_rcp_session sample_proxy 10 ''h'' ''k'' idle_net = (Inr (Some ''0x1a''), w')"
    using sample_session by blast
  show ?thesis by (rule fetch_total [OF g])
qed

text \<open>
  The percentages are not those of the documentation: a reply of sixteen 0xff bytes is kept, with
  coordinates above 655 percent.\<close>

lemma coords_beyond_percent:
  "\<exists>rects r q. parse_motion_coords (replicate 16 0xFF) = Inr rects \<and> r \<in> set rects \<and> mr_x1 r = Fin q \<and> 655 < q"
proof -
  let ?raw = "replicate 16 0xFF :: bytes"
  obtain rects where r: "parse_motion_coords ?raw = Inr rects" "length rects = 2"
    "list_all2 (\<lambda>i r. near (mr_x1 r) (word_at (chunk 8 ?raw i) 0) \<and> near (mr_y1 r) (word_at (chunk 8 ?raw i) 1) \<and>
       near (mr_x2 r) (word_at (chunk 8 ?raw i) 2) \<and> near (mr_y2 r) (word_at (chunk 8 ?raw i) 3)) [0..<2] rects"
    using motion_coords_accuracy [of ?raw] by auto
  have "word_at (chunk 8 ?raw 0) 0 = 65535" by (simp add: word_at_def chunk_def be16_def)
  moreover have "near (mr_x1 (rects ! 0)) (word_at (chunk 8 ?raw 0) 0)" using list_all2_nthD [OF r(3), of 0] by simp
  ultimately have "near (mr_x1 (rects ! 0)) 65535" by (simp only:)
  then obtain q where q: "mr_x1 (rects ! 0) = Fin q" "\<bar>q - 65535 / 100\<bar> \<le> 51 / 1000" by (auto simp: near_def)
  have "65535 / 100 - q \<le> 51 / 1000" using abs_le_D2 [OF q(2)] by simp
  then have "655 < q" by simp
  moreover have "rects ! 0 \<in> set rects" using r(2) by simp
  ultimately show ?thesis using r(1) q(1) by blast
qed

text \<open>C4
  Three strikes: a command whose every answer is an error (a fault, a non-200 status or an RCP error)
  is asked at most three times minus the strikes it already has, over any number of fetches, from any
  state, through any sessions and clocks.\<close>

theorem three_strikes:
  assumes "\<forall>f \<in> set fs. refuses (fr_srv f) cmd" "cmd \<notin> {''0xff0c'', ''0xff0d''}"
  shows "asked_for cmd (fold fetch_once fs w) \<le> asked_for cmd w + (3 - strikes w cmd)"
  using fetch_many_budget [OF assms, of w] by linarith

theorem three_strikes_witness:
  "asked_for ''0x0c62'' (fold fetch_once
     (replicate 9 \<lparr>fr_osrv = sample_proxy, fr_srv = (\<lambda>_ _. Inl TimeoutError), fr_env = sample_env, fr_now = 10,
        fr_host = ''h'', fr_hash = ''k''\<rparr>) idle_net) \<le> 3"
proof -
  have "refuses (\<lambda>_ _. Inl TimeoutError) ''0x0c62''" by (simp add: refuses_def)
  then have "\<forall>f \<in> set (replicate 9 \<lparr>fr_osrv = sample_proxy, fr_srv = (\<lambda>_ _. Inl TimeoutError), fr_env = sample_env,
      fr_now = 10, fr_host = ''h'', fr_hash = ''k''\<rparr>). refuses (fr_srv f) ''0x0c62''" by simp
  from three_strikes [OF this, of idle_net] show ?thesis
    by (simp add: asked_for_def strikes_def idle_net_def)
qed

text \<open>The twelve reads in their order, with the type each asks for.\<close>

definition fetch_plan :: "(string \<times> string) list" where
  "fetch_plan =
     [(''0x0c22'', ''T_WORD''), (''0x0d00'', ''P_OCTET''), (''0x0a0f'', ''P_OCTET''), (''0x0a36'', ''P_OCTET''),
      (''0x0aea'', ''P_OCTET''), (''0x0c81'', ''P_OCTET''), (''0x0c38'', ''P_OCTET''), (''0x0c00'', ''P_OCTET''),
      (''0x0c0a'', ''P_OCTET''), (''0x0b91'', ''P_OCTET''), (''0x0c62'', ''P_OCTET''), (''0x0b60'', ''P_OCTET'')]"

definition plan_read :: "string \<Rightarrow> string \<Rightarrow> string \<times> string \<Rightarrow> request" where
  "plan_read url session_id ct =
     \<lparr>rq_method = ''GET'', rq_url = url,
      rq_params = [(''command'', fst ct), (''direction'', ''READ''), (''type'', snd ct), (''sessionid'', session_id)] @
        (if fst ct = ''0x0c22'' then [(''num'', ''1'')] else []),
      rq_headers = [], rq_body = NoBody, rq_redirects = True\<rparr>"

lemma fetch_plan_commands: "map (\<lambda>c. (rc_command c, rc_type c)) (rcp_commands env) = fetch_plan"
  by (simp add: rcp_commands_def octet_cmd_def fetch_plan_def)

lemma plan_read_cmd:
  assumes "c \<in> set (rcp_commands env)"
  shows "cmd_request base s c = plan_read base s (rc_command c, rc_type c)"
proof -
  have "int_str 1 = ''1''" by code_simp
  with assms show ?thesis
    by (auto simp: rcp_commands_def octet_cmd_def cmd_request_def read_request_def mk_request_def rcp_params_def num_param_def plan_read_def)
qed

text \<open>C14
  The traffic of one fetch is that of opening its session, nothing or a handshake of one or two
  requests, and then, exactly if that gave a session, reads that carry the id of that very session:
  each of the twelve commands at most once, in their order and with their types, to the camera's own
  proxy URL, without headers. A fetch whose session could not be opened reads nothing.\<close>

theorem fetch_traffic:
  "\<exists>r w1 opn asked. get_cached_rcp_session osrv now host k w = (r, w1) \<and> hist w1 = hist w @ opn \<and>
     (let url = ''https://'' @ host @ ''/'' @ k @ ''/rcp.xml'' in
        map (\<lambda>rq. (rq_method rq, rq_url rq, map_of (rq_params rq) ''command'')) opn \<in>
          {[], [(''GET'', url, Some ''0xff0c'')], [(''GET'', url, Some ''0xff0c''), (''GET'', url, Some ''0xff0d'')]} \<and>
        subseq asked fetch_plan \<and> length asked \<le> 12 \<and> distinct (map fst asked) \<and>
        hist (snd (fetch_rcp_camera_data osrv srv env now host k w)) =
          hist w @ opn @ (case r of Inr (Some s) \<Rightarrow> map (plan_read url s) asked | _ \<Rightarrow> []))"
proof -
  obtain r w1 where g: "get_cached_rcp_session osrv now host k w = (r, w1)" by fastforce
  let ?url = "''https://'' @ host @ ''/'' @ k @ ''/rcp.xml''"
  from get_cached_frame [of osrv now host k w] g obtain opn where
    op: "hist w1 = hist w @ opn" "opn = [] \<or> handshake_traffic ?url opn" by (auto simp: rcp_base_url_def)
  have seen: "map (\<lambda>rq. (rq_method rq, rq_url rq, map_of (rq_params rq) ''command'')) opn \<in>
      {[], [(''GET'', ?url, Some ''0xff0c'')], [(''GET'', ?url, Some ''0xff0c''), (''GET'', ?url, Some ''0xff0d'')]}"
    using op(2) by (auto simp: handshake_traffic_def open_request_def ack_request_def mk_request_def)
  have plan: "length fetch_plan = 12" "distinct (map fst fetch_plan)" by (simp_all add: fetch_plan_def)
  obtain asked where a: "subseq asked fetch_plan"
    "hist (snd (fetch_rcp_camera_data osrv srv env now host k w)) =
       hist w @ opn @ (case r of Inr (Some s) \<Rightarrow> map (plan_read ?url s) asked | _ \<Rightarrow> [])"
  proof (cases "\<exists>s. r = Inr (Some s) \<and> s \<noteq> []")
    case True
    then obtain s where s: "r = Inr (Some s)" "s \<noteq> []" by blast
    obtain cs where cs: "subseq cs (rcp_commands env)"
      "hist (snd (read_all srv (rcp_base_url host k) s (rcp_commands env) no_data w1)) =
         hist w1 @ map (cmd_request (rcp_base_url host k) s) cs" using read_all_hist by blast
    have "map (cmd_request (rcp_base_url host k) s) cs = map (plan_read ?url s) (map (\<lambda>c. (rc_command c, rc_type c)) cs)"
    proof -
      have "set cs \<subseteq> set (rcp_commands env)" using cs(1) by (auto elim!: list_emb_set)
      then show ?thesis using plan_read_cmd [of _ env "rcp_base_url host k" s] by (auto simp: rcp_base_url_def)
    qed
    moreover have "subseq (map (\<lambda>c. (rc_command c, rc_type c)) cs) fetch_plan"
      using subseq_map [OF cs(1)] fetch_plan_commands by metis
    ultimately have "hist (snd (fetch_rcp_camera_data osrv srv env now host k w)) =
        hist w @ opn @ map (plan_read ?url s) (map (\<lambda>c. (rc_command c, rc_type c)) cs)"
      "subseq (map (\<lambda>c. (rc_command c, rc_type c)) cs) fetch_plan"
      using s cs(2) op(1) unfolding fetch_run [OF g] by (simp_all only: sum.case option.case if_False snd_conv append_assoc)
    then show thesis using s(1) by (intro that) (simp_all only: sum.case option.case)
  next
    case False
    with op(1) show thesis
      by (intro that [OF list_emb_Nil]) (auto simp: fetch_run [OF g] split: sum.split option.split)
  qed
  have len: "length asked \<le> 12" using list_emb_length [OF a(1)] plan(1) by simp
  from a(1) obtain N where "asked = nths fetch_plan N" unfolding subseq_conv_nths by blast
  then have dis: "distinct (map fst asked)" using plan(2) by (simp add: nths_map [symmetric] distinct_nthsI)
  show ?thesis
    by (rule exI [of _ r], rule exI [of _ w1], rule exI [of _ opn], rule exI [of _ asked])
      (simp only: Let_def g op(1) seen a len dis simp_thms)
qed

lemma short_zone_ignored:
  assumes "fst (rcp_read srv base ''0x0c00'' s ''P_OCTET'' 0 True w) = Inr (Some bs)" "length bs < 28"
  shows "strikes (snd (guarded_read srv base s (octet_cmd ''0x0c00'' decide_zones) d w)) ''0x0c00'' = strikes w ''0x0c00''"
proof -
  have "verdict_of srv base s (octet_cmd ''0x0c00'' decide_zones) w = Ignore"
    using assms by (simp add: verdict_of_def octet_cmd_def decide_zones_def at_least_def)
  then show ?thesis by (simp add: guarded_read_strikes)
qed

text \<open>C29
  A zone reply that is too short for one zone never counts as a failure: while the counter is below
  three, a camera that answers 0x0c00 with fewer than 28 bytes is asked again by every later block,
  n times in n rounds, although every other command bounds such retries by three.\<close>

theorem short_zone_reply_retried:
  fixes w :: "'z rcp_net_scheme"
  assumes "\<And>w :: 'z rcp_net_scheme. \<exists>bs. fst (rcp_read srv base ''0x0c00'' s ''P_OCTET'' 0 True w) = Inr (Some bs) \<and> length bs < 28"
    and "strikes w ''0x0c00'' < 3"
  shows "asked_for ''0x0c00'' (((\<lambda>w. snd (guarded_read srv base s (octet_cmd ''0x0c00'' decide_zones) d w)) ^^ n) w) =
    asked_for ''0x0c00'' w + n"
proof -
  let ?step = "\<lambda>w. snd (guarded_read srv base s (octet_cmd ''0x0c00'' decide_zones) d w)"
  have "strikes ((?step ^^ n) w) ''0x0c00'' = strikes w ''0x0c00'' \<and>
      asked_for ''0x0c00'' ((?step ^^ n) w) = asked_for ''0x0c00'' w + n"
  proof (induction n)
    case (Suc n)
    obtain bs where "fst (rcp_read srv base ''0x0c00'' s ''P_OCTET'' 0 True ((?step ^^ n) w)) = Inr (Some bs)" "length bs < 28"
      using assms(1) by blast
    with Suc assms(2) show ?case
      using short_zone_ignored [of srv base s "(?step ^^ n) w" bs d]
        guarded_read_hist [of srv base s "octet_cmd ''0x0c00'' decide_zones" d "(?step ^^ n) w"]
      by (simp add: asked_for_def skip_cmd_def) (simp add: octet_cmd_def)
  qed simp
  then show ?thesis by blast
qed

theorem short_zone_reply_retried_witness:
  "asked_for ''0x0c00'' (((\<lambda>w. snd (guarded_read (\<lambda>_ _. Inr (plain_response 200 ''<payload>0102</payload>'' JNull))
     (rcp_base_url ''h'' ''k'') ''0x1a'' (octet_cmd ''0x0c00'' decide_zones) no_data w)) ^^ 1000) idle_net) = 1000"
proof -
  have a: "rcp_answer (b_lit ''<payload>0102</payload>'') = Inr (Some [1, 2])"
    "err_code (b_lit ''<payload>0102</payload>'') = None" by code_simp+
  have k: "CHR ''/'' \<notin> set ''k''" by simp
  have r: "\<exists>bs. fst (rcp_read (\<lambda>_ _. Inr (plain_response 200 ''<payload>0102</payload>'' JNull)) (rcp_base_url ''h'' ''k'')
      ''0x0c00'' ''0x1a'' ''P_OCTET'' 0 True w) = Inr (Some bs) \<and> length bs < 28" for w :: rcp_net
    by (simp add: rcp_read_run [OF k] plain_response_def a)
  have "strikes idle_net ''0x0c00'' < 3" by (simp add: strikes_def idle_net_def)
  from short_zone_reply_retried [OF r this, where d = no_data and n = 1000] show ?thesis
    by (simp add: asked_for_def idle_net_def)
qed

end
