(* ===== verification/Downloads.thy ===== *)
theory Downloads
  imports MediaTransfer Http
begin

section \<open>Downloads through urllib\<close>

text \<open>
  \<open>sync_http_get\<close>, \<open>sync_http_get_to_file\<close> and \<open>sync_http_get_chunked\<close> of \<open>media_transfer.py\<close>, and
  what they use of \<open>urllib.request.urlopen\<close>: its default opener follows redirects, with all headers
  of the first request, and turns every other status outside 200 to 299 into an \<open>HTTPError\<close>, which is
  an \<open>OSError\<close>. A redirect to an ftp URL is retrieved by FTP, which sends no HTTP request and no
  headers, and whose response has no status. The first URL is an http or https one, as the callers have
  to check. The peers that answer are a parameter. The state is the HTTP requests sent, the URLs
  retrieved by FTP and the files.
\<close>

subsection \<open>urlopen\<close>

text \<open>
  An answer: its status, the URL its Location header gives when resolved against the request's, and
  the results of successive \<open>read(65536)\<close> calls, where the end of the list reads as the empty chunk.
\<close>

record answer =
  an_status :: int
  an_location :: "string option"
  an_reads :: "(exn + bytes) list"

text \<open>What \<open>urlopen\<close> returns; \<open>op_status\<close> is its \<open>status\<close>, None for FTP.\<close>

datatype opened = Http answer | Ftp "(exn + bytes) list"

fun op_status :: "opened \<Rightarrow> int option" where
  "op_status (Http a) = Some (an_status a)"
| "op_status (Ftp rs) = None"

fun op_reads :: "opened \<Rightarrow> (exn + bytes) list" where
  "op_reads (Http a) = an_reads a"
| "op_reads (Ftp rs) = rs"

record transfer =
  tr_hist :: "request list"
  tr_ftp :: "string list"
  tr_files :: "string \<rightharpoonup> bytes"

record peers =
  http_peer :: "request list \<Rightarrow> request \<Rightarrow> exn + answer"
  ftp_peer :: "string \<Rightarrow> exn + (exn + bytes) list"

definition REDIRECT_CODES :: "int list" where
  "REDIRECT_CODES = [301, 302, 303, 307, 308]"

definition redirect_target :: "answer \<Rightarrow> string option" where
  "redirect_target a =
     (if an_status a \<in> set REDIRECT_CODES then
        (case an_location a of
           None \<Rightarrow> None
         | Some u \<Rightarrow> if fst (split_scheme (clean_url u)) \<in> {''http'', ''https'', ''ftp''} then Some u else None)
      else None)"

definition is_ftp :: "string \<Rightarrow> bool" where
  "is_ftp url \<longleftrightarrow> fst (split_scheme (clean_url url)) = ''ftp''"

definition max_repeats :: nat where
  "max_repeats = 4"

definition max_redirections :: nat where
  "max_redirections = 10"

definition loops :: "string list \<Rightarrow> string \<Rightarrow> bool" where
  "loops visited u \<longleftrightarrow> max_repeats \<le> count_list visited u \<or> max_redirections \<le> length (remdups visited)"

lemma revisit_less:
  assumes "\<not> loops visited u" "u \<in> set visited"
  shows "(\<Sum>v \<in> set (u # visited). max_repeats - count_list (u # visited) v) < (\<Sum>v \<in> set visited. max_repeats - count_list visited v)"
proof -
  have "set (u # visited) = set visited" using assms(2) by auto
  moreover have "(\<Sum>v \<in> set visited. max_repeats - count_list (u # visited) v) < (\<Sum>v \<in> set visited. max_repeats - count_list visited v)"
    using assms by (intro sum_strict_mono_ex1) (auto simp: loops_def intro!: bexI [of _ u])
  ultimately show ?thesis by simp
qed

lemma new_visit_less: "\<not> loops visited u \<Longrightarrow> u \<notin> set visited \<Longrightarrow>
  max_redirections - length (remdups (u # visited)) < max_redirections - length (remdups visited)"
  unfolding loops_def by (simp add: not_le diff_less_mono2)

definition get_with :: "(string \<times> string) list \<Rightarrow> string \<Rightarrow> request" where
  "get_with headers url = mk_request ''GET'' url [] headers NoBody"

definition ftp_open :: "peers \<Rightarrow> string \<Rightarrow> (transfer, opened) io" where
  "ftp_open peers url st = (map_sum id Ftp (ftp_peer peers url), st\<lparr>tr_ftp := tr_ftp st @ [url]\<rparr>)"

function follow :: "peers \<Rightarrow> (string \<times> string) list \<Rightarrow> string list \<Rightarrow> string \<Rightarrow> (transfer, opened) io" where
  "follow peers headers visited url st =
     (let st' = st\<lparr>tr_hist := tr_hist st @ [get_with headers url]\<rparr> in
      case http_peer peers (tr_hist st) (get_with headers url) of
        Inl e \<Rightarrow> (Inl e, st')
      | Inr a \<Rightarrow>
          if 200 \<le> an_status a \<and> an_status a < 300 then (Inr (Http a), st')
          else (case redirect_target a of
              None \<Rightarrow> (Inl OSError, st')
            | Some u \<Rightarrow>
                if loops visited u then (Inl OSError, st')
                else if is_ftp u then ftp_open peers u st'
                else follow peers headers (u # visited) u st'))"
  by pat_completeness auto
termination
proof (relation "measures [\<lambda>(_, _, visited, _, _). max_redirections - length (remdups visited),
    \<lambda>(_, _, visited, _, _). \<Sum>v \<in> set visited. max_repeats - count_list visited v]", goal_cases)
  case (2 peers headers visited url st st' a u)
  then show ?case
  proof (cases "u \<in> set visited")
    case True
    then have "length (remdups (u # visited)) = length (remdups visited)" by simp
    with revisit_less [OF 2(5) True] show ?thesis by (simp only: in_measures prod.case) simp
  next
    case False
    from new_visit_less [OF 2(5) False] show ?thesis by (simp only: in_measures prod.case) simp
  qed
qed simp

declare follow.simps [simp del]

definition urlopen :: "peers \<Rightarrow> (string \<times> string) list \<Rightarrow> string \<Rightarrow> (transfer, opened) io" where
  "urlopen peers headers url = follow peers headers [] url"

subsection \<open>The downloads\<close>

definition auth_headers :: "string \<Rightarrow> (string \<times> string) list" where
  "auth_headers token = [(''Authorization'', bearer token)]"

fun read_all :: "(exn + bytes) list \<Rightarrow> exn + bytes" where
  "read_all [] = Inr []"
| "read_all (Inl e # rs) = Inl e"
| "read_all (Inr chunk # rs) =
     (if chunk = [] then Inr [] else case read_all rs of Inl e \<Rightarrow> Inl e | Inr rest \<Rightarrow> Inr (chunk @ rest))"

definition sync_http_get :: "peers \<Rightarrow> string \<Rightarrow> string \<Rightarrow> (transfer, int option \<times> bytes) io" where
  "sync_http_get peers url token =
     bind_io (urlopen peers (auth_headers token) url) (\<lambda>r.
     bind_io (lift (read_all (op_reads r))) (\<lambda>content. ret (op_status r, content)))"

text \<open>
  The file system: the exception \<open>open(dest_path, "wb")\<close> raises, if any, and for a write to a file
  with some content its exception and what it leaves, or nothing when the chunk is appended.
\<close>

record disk =
  can_open :: "string \<Rightarrow> exn option"
  can_write :: "bytes \<Rightarrow> bytes \<Rightarrow> (exn \<times> bytes) option"

fun copy_chunks :: "disk \<Rightarrow> (exn + bytes) list \<Rightarrow> bytes \<Rightarrow> (exn + unit) \<times> bytes" where
  "copy_chunks dsk [] acc = (Inr (), acc)"
| "copy_chunks dsk (Inl e # rs) acc = (Inl e, acc)"
| "copy_chunks dsk (Inr chunk # rs) acc =
     (if chunk = [] then (Inr (), acc)
      else case can_write dsk acc chunk of
        Some (e, left) \<Rightarrow> (Inl e, left)
      | None \<Rightarrow> copy_chunks dsk rs (acc @ chunk))"

definition sync_http_get_to_file :: "peers \<Rightarrow> disk \<Rightarrow> string \<Rightarrow> string \<Rightarrow> string \<Rightarrow> (transfer, bool) io" where
  "sync_http_get_to_file peers dsk url token dest_path =
     bind_io (urlopen peers (auth_headers token) url) (\<lambda>r.
       if op_status r \<noteq> Some 200 then ret False
       else case can_open dsk dest_path of
         Some e \<Rightarrow> raise e
       | None \<Rightarrow> (\<lambda>st.
           let (res, content) = copy_chunks dsk (op_reads r) [] in
           (map_sum id (\<lambda>_. True) res, st\<lparr>tr_files := (tr_files st)(dest_path \<mapsto> content)\<rparr>)))"

definition sync_http_get_chunked :: "peers \<Rightarrow> string \<Rightarrow> string \<Rightarrow> (transfer, opened) io" where
  "sync_http_get_chunked peers url token = urlopen peers (auth_headers token) url"

subsection \<open>Runs\<close>

lemma follow_ends:
  assumes "http_peer peers (tr_hist st) (get_with headers url) = Inr a" "redirect_target a = None"
  shows "follow peers headers visited url st =
    (if 200 \<le> an_status a \<and> an_status a < 300 then Inr (Http a) else Inl OSError, st\<lparr>tr_hist := tr_hist st @ [get_with headers url]\<rparr>)"
  using assms by (subst follow.simps) (simp add: Let_def)

lemma redirect_status: "redirect_target a = Some u \<Longrightarrow> 300 \<le> an_status a"
  by (auto simp: redirect_target_def REDIRECT_CODES_def split: if_splits)

lemma follow_redirect:
  assumes "http_peer peers (tr_hist st) (get_with headers url) = Inr a" "redirect_target a = Some u" "\<not> loops visited u" "\<not> is_ftp u"
  shows "follow peers headers visited url st =
    follow peers headers (u # visited) u (st\<lparr>tr_hist := tr_hist st @ [get_with headers url]\<rparr>)"
  using assms redirect_status [OF assms(2)] by (subst follow.simps) (simp add: Let_def)

text \<open>What the redirects visited so far satisfy, so that there are at most forty of them.\<close>

definition visits_ok :: "string list \<Rightarrow> bool" where
  "visits_ok visited \<longleftrightarrow> (\<forall>u. count_list visited u \<le> 4) \<and> card (set visited) \<le> 10"

lemma visits_ok_length: "visits_ok visited \<Longrightarrow> length visited \<le> 40"
proof -
  assume ok: "visits_ok visited"
  have "length visited = (\<Sum>u \<in> set visited. count_list visited u)" by (simp add: sum_count_set)
  also have "\<dots> \<le> card (set visited) * 4" using ok sum_bounded_above [of "set visited" "count_list visited" 4] by (simp add: visits_ok_def)
  also have "\<dots> \<le> 10 * 4" using ok by (intro mult_right_mono) (simp_all add: visits_ok_def)
  finally show ?thesis by simp
qed

lemma visits_ok_Cons: "visits_ok visited \<Longrightarrow> \<not> loops visited u \<Longrightarrow> visits_ok (u # visited)"
  by (auto simp: visits_ok_def loops_def max_repeats_def max_redirections_def length_remdups_card_conv card_insert_if)

lemma follow_hist:
  assumes "visits_ok visited"
  shows "\<exists>new. tr_hist (snd (follow peers headers visited url st)) = tr_hist st @ get_with headers url # new \<and>
    list_all (\<lambda>rq. rq = get_with headers (rq_url rq)) new \<and> length new + length visited \<le> 40 \<and>
    tr_files (snd (follow peers headers visited url st)) = tr_files st"
  using assms
proof (induction peers headers visited url st rule: follow.induct)
  case (1 peers headers visited url st)
  let ?rq = "get_with headers url" and ?st = "st\<lparr>tr_hist := tr_hist st @ [get_with headers url]\<rparr>"
  show ?case
  proof (cases "\<exists>a u. http_peer peers (tr_hist st) ?rq = Inr a \<and> \<not> (200 \<le> an_status a \<and> an_status a < 300) \<and>
      redirect_target a = Some u \<and> \<not> loops visited u \<and> \<not> is_ftp u")
    case True
    then obtain a u where a: "http_peer peers (tr_hist st) ?rq = Inr a" "\<not> (200 \<le> an_status a \<and> an_status a < 300)"
      "redirect_target a = Some u" "\<not> loops visited u" "\<not> is_ftp u" by blast
    then have "follow peers headers visited url st = follow peers headers (u # visited) u ?st"
      by (intro follow_redirect)
    moreover have "get_with headers u = get_with headers (rq_url (get_with headers u))"
      by (simp add: get_with_def mk_request_def)
    ultimately show ?thesis
      using 1(1) [OF refl a(1,2,3,4,5) visits_ok_Cons [OF 1(2) a(4)]] by fastforce
  next
    case False
    then have "snd (follow peers headers visited url st) = ?st \<or>
        (\<exists>u. snd (follow peers headers visited url st) = ?st\<lparr>tr_ftp := tr_ftp st @ [u]\<rparr>)"
      by (subst (1 2) follow.simps) (auto simp: Let_def ftp_open_def split: sum.split option.split)
    then show ?thesis using visits_ok_length [OF 1(2)] by auto
  qed
qed

lemma sync_http_get_state: "snd (sync_http_get peers url token st) = snd (urlopen peers (auth_headers token) url st)"
  by (auto simp: sync_http_get_def io_defs split: prod.split sum.split)

lemma sync_http_get_to_file_hist:
  "tr_hist (snd (sync_http_get_to_file peers dsk url token dest st)) = tr_hist (snd (urlopen peers (auth_headers token) url st))"
  by (auto simp: sync_http_get_to_file_def io_defs split: prod.split sum.split option.split)

lemma copy_chunks_all:
  assumes "\<And>a c. can_write dsk a c = None" "read_all rs = Inr content"
  shows "copy_chunks dsk rs acc = (Inr (), acc @ content)"
  using assms(2)
proof (induction rs arbitrary: acc content)
  case (Cons r rs)
  then show ?case by (cases r) (auto simp: assms(1) split: if_splits sum.splits)
qed simp

subsection \<open>Properties\<close>


definition idle_transfer :: transfer where
  "idle_transfer = \<lparr>tr_hist = [], tr_ftp = [], tr_files = Map.empty\<rparr>"


text \<open>C27
  The allowlist check a caller makes covers the first request only. When the peer redirects to an http
  or https URL, the next request goes to that URL with the same bearer token, whatever host it names and
  also without TLS, and so does every further one, up to forty in all; the three functions behave alike
  in this. Only a redirect to an ftp URL ends the HTTP requests, so that the token is not sent there.\<close>

theorem redirect_carries_token:
  assumes "http_peer peers (tr_hist st) (mk_request ''GET'' url [] [(''Authorization'', ''Bearer '' @ token)] NoBody) = Inr a"
    "redirect_target a = Some u"
  shows "let req = (\<lambda>url. mk_request ''GET'' url [] [(''Authorization'', ''Bearer '' @ token)] NoBody); ran = snd (sync_http_get peers url token st) in
    (if fst (split_scheme (clean_url u)) = ''ftp'' then tr_hist ran = tr_hist st @ [req url] \<and> tr_ftp ran = tr_ftp st @ [u]
     else \<exists>new. tr_hist ran = tr_hist st @ req url # req u # new \<and>
       list_all (\<lambda>rq. rq = req (rq_url rq)) new \<and> length new \<le> 39) \<and>
    tr_hist (snd (sync_http_get_to_file peers dsk url token dest st)) = tr_hist ran \<and>
    tr_hist (snd (sync_http_get_chunked peers url token st)) = tr_hist ran"
proof -
  let ?h = "auth_headers token"
  have req: "mk_request ''GET'' url [] [(''Authorization'', ''Bearer '' @ token)] NoBody = get_with ?h url" for url
    by (simp add: get_with_def auth_headers_def bearer_def)
  let ?st = "st\<lparr>tr_hist := tr_hist st @ [get_with ?h url]\<rparr>"
  note hit = assms [unfolded req]
  have l: "\<not> loops [] u" by (simp add: loops_def max_repeats_def max_redirections_def)
  have "if is_ftp u then urlopen peers ?h url st = ftp_open peers u ?st
    else urlopen peers ?h url st = follow peers ?h [u] u ?st"
    using hit l redirect_status [OF hit(2)] follow_redirect [of peers st ?h url a u "[]"]
    by (simp add: urlopen_def) (simp add: follow.simps Let_def)
  moreover have "visits_ok [u]" by (simp add: visits_ok_def)
  from follow_hist [OF this, of peers ?h u ?st]
  obtain new where "tr_hist (snd (follow peers ?h [u] u ?st)) = tr_hist st @ get_with ?h url # get_with ?h u # new"
    "list_all (\<lambda>rq. rq = get_with ?h (rq_url rq)) new" "length new \<le> 39" by auto
  ultimately show ?thesis
    unfolding Let_def req sync_http_get_state sync_http_get_to_file_hist sync_http_get_chunked_def is_ftp_def
    by (cases "fst (split_scheme (clean_url u)) = ''ftp''") (auto simp: ftp_open_def)
qed

definition redirecting :: peers where
  "redirecting =
     \<lparr>http_peer = (\<lambda>past rq.
        if past = [] then Inr \<lparr>an_status = 302, an_location = Some ''http://evil.example/'', an_reads = []\<rparr>
        else Inr \<lparr>an_status = 200, an_location = None, an_reads = []\<rparr>),
      ftp_peer = (\<lambda>_. Inr [])\<rparr>"

theorem redirect_carries_token_witness:
  "is_safe_bosch_url (\<lambda>_. True) DEFAULT_SAFE_DOMAINS ''https://a.bosch.com/x'' \<and>
   \<not> is_safe_bosch_url (\<lambda>_. True) DEFAULT_SAFE_DOMAINS ''http://evil.example/'' \<and>
   mk_request ''GET'' ''http://evil.example/'' [] [(''Authorization'', ''Bearer t'')] NoBody \<in>
     set (tr_hist (snd (sync_http_get redirecting ''https://a.bosch.com/x'' ''t'' idle_transfer)))"
proof (intro conjI)
  show "is_safe_bosch_url (\<lambda>_. True) DEFAULT_SAFE_DOMAINS ''https://a.bosch.com/x''"
    "\<not> is_safe_bosch_url (\<lambda>_. True) DEFAULT_SAFE_DOMAINS ''http://evil.example/''"
    by code_simp+
  let ?a = "\<lparr>an_status = 302, an_location = Some ''http://evil.example/'', an_reads = []\<rparr>"
  have r: "redirect_target ?a = Some ''http://evil.example/''" "fst (split_scheme (clean_url ''http://evil.example/'')) \<noteq> ''ftp''"
    by code_simp+
  have "http_peer redirecting (tr_hist idle_transfer)
      (mk_request ''GET'' ''https://a.bosch.com/x'' [] [(''Authorization'', ''Bearer '' @ ''t'')] NoBody) = Inr ?a"
    by (simp add: redirecting_def idle_transfer_def)
  from redirect_carries_token [OF this r(1), of "\<lparr>can_open = (\<lambda>_. None), can_write = (\<lambda>_ _. None)\<rparr>" "''f''"] r(2)
  show "mk_request ''GET'' ''http://evil.example/'' [] [(''Authorization'', ''Bearer t'')] NoBody \<in>
     set (tr_hist (snd (sync_http_get redirecting ''https://a.bosch.com/x'' ''t'' idle_transfer)))"
    by (auto simp: Let_def)
qed

end
