(* ===== verification/TlsBreaker.thy ===== *)
theory TlsBreaker
  imports Prelude Complex_Main
begin

section \<open>The circuit breaker of a TLS proxy\<close>

text \<open>
  The closure-local counters of \<open>start_tls_proxy\<close>: consecutive connect failures, the time of the
  first of them (minus infinity when there is none) and whether the breaker has fired. Times are
  rationals of the monotonic clock. The specification is the list of failure times since the last
  successful connect; the counters are shown to be an abstraction of it, and the trip condition is
  compared with "five failures within thirty seconds".
\<close>

subsection \<open>Time stamps with minus infinity\<close>

datatype tstamp = NegInf | At rat

instantiation tstamp :: linorder
begin

fun less_eq_tstamp :: "tstamp \<Rightarrow> tstamp \<Rightarrow> bool" where
  "less_eq_tstamp NegInf y \<longleftrightarrow> True"
| "less_eq_tstamp (At a) NegInf \<longleftrightarrow> False"
| "less_eq_tstamp (At a) (At b) \<longleftrightarrow> a \<le> b"

definition less_tstamp :: "tstamp \<Rightarrow> tstamp \<Rightarrow> bool" where
  "less_tstamp x y \<longleftrightarrow> x \<le> y \<and> \<not> y \<le> (x :: tstamp)"

instance
proof
  fix x y z :: tstamp
  show "x < y \<longleftrightarrow> x \<le> y \<and> \<not> y \<le> x" by (rule less_tstamp_def)
  show "x \<le> x" by (cases x) simp_all
  show "x \<le> y \<Longrightarrow> y \<le> z \<Longrightarrow> x \<le> z" by (cases x; cases y; cases z) simp_all
  show "x \<le> y \<Longrightarrow> y \<le> x \<Longrightarrow> x = y" by (cases x; cases y) simp_all
  show "x \<le> y \<or> y \<le> x" by (cases x; cases y) auto
qed

end

subsection \<open>The counters\<close>

record breaker =
  br_fails :: nat
  br_first :: tstamp
  br_fired :: bool

definition MAX_BURST :: nat where
  "MAX_BURST = 5"

definition BURST_WINDOW :: rat where
  "BURST_WINDOW = 30"

definition fresh_breaker :: breaker where
  "fresh_breaker = \<lparr>br_fails = 0, br_first = NegInf, br_fired = False\<rparr>"

definition count_failure :: "rat \<Rightarrow> breaker \<Rightarrow> breaker" where
  "count_failure now b =
     b\<lparr>br_first := (if br_fails b = 0 then At now else br_first b), br_fails := br_fails b + 1\<rparr>"

text \<open>\<open>fail_count >= _MAX_BURST and (now - first_fail_at) <= _BURST_WINDOW\<close>\<close>

definition trips :: "rat \<Rightarrow> breaker \<Rightarrow> bool" where
  "trips now b \<longleftrightarrow> MAX_BURST \<le> br_fails b \<and> At (now - BURST_WINDOW) \<le> br_first b"

definition count_success :: "breaker \<Rightarrow> breaker" where
  "count_success b = b\<lparr>br_fails := 0, br_first := NegInf\<rparr>"

subsection \<open>A run of connect attempts and its specification\<close>

datatype attempt = Fails rat | Connects

fun attempt_step :: "attempt \<Rightarrow> breaker \<Rightarrow> breaker" where
  "attempt_step (Fails t) b = count_failure t b"
| "attempt_step Connects b = count_success b"

definition breaker_run :: "attempt list \<Rightarrow> breaker" where
  "breaker_run as = fold attempt_step as fresh_breaker"

fun streak_step :: "attempt \<Rightarrow> rat list \<Rightarrow> rat list" where
  "streak_step (Fails t) ts = ts @ [t]"
| "streak_step Connects ts = []"

definition streak :: "attempt list \<Rightarrow> rat list" where
  "streak as = fold streak_step as []"

definition counts :: "rat list \<Rightarrow> breaker \<Rightarrow> bool" where
  "counts ts b \<longleftrightarrow> br_fails b = length ts \<and> br_first b = (if ts = [] then NegInf else At (hd ts))"

lemma counts_step: "counts ts b \<Longrightarrow> counts (streak_step a ts) (attempt_step a b)"
  by (cases a) (auto simp: counts_def count_failure_def count_success_def hd_append)

lemma counts_run: "counts (streak as) (breaker_run as)"
proof -
  have "counts ts b \<Longrightarrow> counts (fold streak_step as ts) (fold attempt_step as b)" for ts b
    by (induction as arbitrary: ts b) (simp_all add: counts_step)
  moreover have "counts [] fresh_breaker" by (simp add: counts_def fresh_breaker_def)
  ultimately show ?thesis by (simp add: streak_def breaker_run_def)
qed

lemma streak_append: "streak (as @ [Fails t]) = streak as @ [t]"
  by (simp add: streak_def)

lemma counts_trips: "counts ts b \<Longrightarrow> trips now b \<longleftrightarrow> 5 \<le> length ts \<and> now - hd ts \<le> 30"
  by (auto simp: counts_def trips_def MAX_BURST_def BURST_WINDOW_def algebra_simps)

text \<open>What the code's comment promises: five consecutive failures within thirty seconds.\<close>

definition burst :: "rat list \<Rightarrow> bool" where
  "burst ts \<longleftrightarrow> 5 \<le> length ts \<and> last ts - ts ! (length ts - 5) \<le> 30"

subsection \<open>Properties\<close>

text \<open>C17
  The three counters implement the specification: after any run of connect attempts a failure at time
  t trips the breaker exactly when it is at least the fifth since the last successful connect and at
  most thirty seconds after the first of them.\<close>

theorem breaker_refines:
  "trips t (breaker_run (as @ [Fails t])) \<longleftrightarrow>
     5 \<le> length (streak as @ [t]) \<and> t - hd (streak as @ [t]) \<le> 30"
  using counts_trips [OF counts_run, of t "as @ [Fails t]"] by (simp only: streak_append)

text \<open>C32
  The breaker is weaker than its comment: with failure times in order, a trip is a burst of five
  failures within thirty seconds, but when more than thirty seconds pass between the first failure and
  the fifth, no later failure trips it before a connect succeeds, however dense the failures become.\<close>

theorem breaker_sound_not_complete:
  assumes "sorted ts" "5 \<le> length ts" "30 < ts ! 4 - ts ! 0"
  shows "\<not> trips (last ts) (breaker_run (map Fails ts)) \<and>
    (\<forall>us. sorted us \<longrightarrow> trips (last us) (breaker_run (map Fails us)) \<longrightarrow> burst us)"
proof -
  have s: "streak (map Fails us) = us" for us
  proof -
    have "fold streak_step (map Fails us) acc = acc @ us" for acc by (induction us arbitrary: acc) simp_all
    then show ?thesis by (simp add: streak_def)
  qed
  have t: "trips (last us) (breaker_run (map Fails us)) \<longleftrightarrow> 5 \<le> length us \<and> last us - hd us \<le> 30" for us
    using counts_trips [OF counts_run, of "last us" "map Fails us"] by (simp only: s)
  have "ts \<noteq> []" using assms(2) by auto
  then have "ts ! 4 \<le> last ts" "hd ts = ts ! 0"
    using assms sorted_nth_mono [OF assms(1), of 4 "length ts - 1"] by (auto simp: last_conv_nth hd_conv_nth)
  moreover have "burst us" if "sorted us" "5 \<le> length us" "last us - hd us \<le> 30" for us
  proof -
    have "us \<noteq> []" using that(2) by auto
    then have "hd us \<le> us ! (length us - 5)"
      using that sorted_nth_mono [OF that(1), of 0 "length us - 5"] by (auto simp: hd_conv_nth)
    with that show ?thesis by (simp add: burst_def)
  qed
  ultimately show ?thesis using assms(3) unfolding t by auto
qed

theorem breaker_sound_not_complete_witness:
  "burst [0, 31, 32, 33, 34, 35] \<and> \<not> trips 35 (breaker_run (map Fails [0, 31, 32, 33, 34, 35]))"
  using breaker_sound_not_complete [of "[0, 31, 32, 33, 34, 35]"] by (simp add: burst_def eval_nat_numeral)

end
