(* ===== verification/TlsPipe.thy ===== *)
theory TlsPipe
  imports Utext Regex
begin

section \<open>Forwarding bytes through the TLS proxy\<close>

text \<open>
  \<open>_pipe\<close> of \<open>tls_proxy.py\<close>: the loop that copies what one side sends to the other, and on the way
  to the camera rewrites the transport of RTSP SETUP requests to interleaved TCP. A read is data,
  the idle timeout or an exception, and comes with what writing and draining it will raise; a read
  of no bytes is the end of the stream. The loop works on the data of each read separately, and so
  does the model. The redacted preview the loop logs is modelled too.
\<close>

subsection \<open>The rewriting of a SETUP request\<close>

definition not_eol :: "nat \<Rightarrow> bool" where
  "not_eol u \<longleftrightarrow> u \<noteq> 13 \<and> u \<noteq> 10"

definition not_eol_semi :: "nat \<Rightarrow> bool" where
  "not_eol_semi u \<longleftrightarrow> u \<noteq> 59 \<and> u \<noteq> 13 \<and> u \<noteq> 10"

definition TRANSPORT :: ustring where
  "TRANSPORT = ustr ''Transport:''"

definition PROFILE :: ustring where
  "PROFILE = ustr ''RTP/AVP''"

definition CLIENT_PORT :: ustring where
  "CLIENT_PORT = ustr '';unicast;client_port=''"

text \<open>\<open>Transport:\s*RTP/AVP[^;\r\n]*;unicast;client_port=[^\r\n]+\<close>\<close>

definition transport_rx :: "nat rx" where
  "transport_rx =
     RSeq (r_lit TRANSPORT) (RSeq (RStar (RChr is_uspace)) (RSeq (r_lit PROFILE)
       (RSeq (RStar (RChr not_eol_semi)) (RSeq (r_lit CLIENT_PORT) (r_plus (RChr not_eol))))))"

definition interleaved_transport :: "nat \<Rightarrow> string" where
  "interleaved_transport lo = ''Transport: RTP/AVP/TCP;unicast;interleaved='' @ nat_str lo @ ''-'' @ nat_str (lo + 1)"

definition rewrite_setup :: "nat \<Rightarrow> bytes \<Rightarrow> exn + bytes" where
  "rewrite_setup lo data =
     utf8_encode (rx_sub transport_rx (\<lambda>_. ustr (interleaved_transport lo)) [] (utf8_replace data))"

definition SETUP_MARK :: bytes where
  "SETUP_MARK = b_lit ''SETUP ''"

text \<open>One read's data: what is written, and the channel counter after it.\<close>

definition pipe_data :: "bool \<Rightarrow> nat \<Rightarrow> bytes \<Rightarrow> exn + bytes \<times> nat" where
  "pipe_data rewrite counter data =
     (if rewrite \<and> contains SETUP_MARK data then
        (case rewrite_setup counter data of Inl e \<Rightarrow> Inl e | Inr out \<Rightarrow> Inr (out, counter + 2))
      else Inr (data, counter))"

subsection \<open>The loop\<close>

datatype pipe_read = Read bytes "exn option" | ReadFails exn

text \<open>
  What was written to the other side, and whether the loop has ended, which closes the writer.
  While the input so far does not end the loop it waits for more.
\<close>

fun pipe_loop :: "bool \<Rightarrow> nat \<Rightarrow> pipe_read list \<Rightarrow> bytes list \<times> bool" where
  "pipe_loop rewrite counter [] = ([], False)"
| "pipe_loop rewrite counter (ReadFails e # reads) = ([], True)"
| "pipe_loop rewrite counter (Read data fault # reads) =
     (if data = [] then ([], True)
      else case pipe_data rewrite counter data of
        Inl e \<Rightarrow> ([], True)
      | Inr (out, counter') \<Rightarrow>
          (case fault of
             Some e \<Rightarrow> ([out], True)
           | None \<Rightarrow> (out # fst (pipe_loop rewrite counter' reads), snd (pipe_loop rewrite counter' reads))))"

subsection \<open>The logged preview\<close>

text \<open>A character of an ASCII pattern under \<open>(?i)\<close>: the dotless and the dotted i match i too.\<close>

definition matches_ic :: "char \<Rightarrow> nat \<Rightarrow> bool" where
  "matches_ic c u \<longleftrightarrow>
     u = code (to_lower c) \<or> u = code (to_upper c) \<or> to_lower c = CHR ''i'' \<and> (u = 0x130 \<or> u = 0x131)"

fun r_ulit_ic :: "string \<Rightarrow> nat rx" where
  "r_ulit_ic [] = REps"
| "r_ulit_ic (c # cs) = RSeq (RChr (matches_ic c)) (r_ulit_ic cs)"

definition not_backslash :: "nat \<Rightarrow> bool" where
  "not_backslash u \<longleftrightarrow> u \<noteq> 92"

text \<open>\<open>(?i)(Authorization:|WWW-Authenticate:)[^\\]*\<close> and its replacement \<open>\1 <redacted>\<close>.\<close>

definition auth_rx :: "nat rx" where
  "auth_rx =
     RSeq (RGrp 1 (RAlt (r_ulit_ic ''Authorization:'') (r_ulit_ic ''WWW-Authenticate:'')))
       (RStar (RChr not_backslash))"

definition redacted :: "nat groups \<Rightarrow> ustring" where
  "redacted g = the (map_of g 1) @ ustr '' <redacted>''"

definition log_preview :: "bytes \<Rightarrow> ustring" where
  "log_preview data =
     rx_sub auth_rx redacted []
       (replace_all [13, 10] (ustr [CHR 0x5C, CHR ''r'', CHR 0x5C, CHR ''n'']) (utf8_replace (take 500 data)))"

text \<open>Which of the reads are logged: the first twenty short ones that are not interleaved frames.\<close>

fun pipe_log :: "nat \<Rightarrow> bytes list \<Rightarrow> ustring list" where
  "pipe_log n [] = []"
| "pipe_log n (data # rest) =
     (if n < 20 \<and> length data < 2000 \<and> take 1 data \<noteq> b_lit ''$''
      then log_preview data # pipe_log (Suc n) rest else pipe_log n rest)"

subsection \<open>Data without a SETUP request\<close>

lemma pipe_data_plain: "rewrite \<longrightarrow> \<not> contains SETUP_MARK data \<Longrightarrow> pipe_data rewrite n data = Inr (data, n)"
  by (auto simp: pipe_data_def)

lemma rewrite_setup_total: "\<exists>out. rewrite_setup lo data = Inr out"
proof -
  have "list_all scalar (rx_sub transport_rx (\<lambda>_. ustr (interleaved_transport lo)) [] (utf8_replace data))"
    by (intro rx_sub_list_all) simp_all
  then show ?thesis by (simp add: rewrite_setup_def utf8_encode_def)
qed

subsection \<open>A transport header\<close>

definition udp_transport :: "ustring \<Rightarrow> ustring \<Rightarrow> ustring \<Rightarrow> ustring" where
  "udp_transport sp mid ports = TRANSPORT @ sp @ PROFILE @ mid @ CLIENT_PORT @ ports"

definition udp_ok :: "ustring \<Rightarrow> ustring \<Rightarrow> ustring \<Rightarrow> bool" where
  "udp_ok sp mid ports \<longleftrightarrow>
     list_all is_uspace sp \<and> list_all not_eol_semi mid \<and> list_all not_eol ports \<and> ports \<noteq> []"

definition line_end :: "ustring \<Rightarrow> bool" where
  "line_end post \<longleftrightarrow> post = [] \<or> \<not> not_eol (hd post)"

lemma transport_hit:
  assumes "udp_ok sp mid ports" "line_end post"
  shows "\<exists>ms. rx_run transport_rx (p, udp_transport sp mid ports @ post, []) =
    (rev (udp_transport sp mid ports) @ p, post, []) # ms"
proof -
  let ?c = "CLIENT_PORT @ ports @ post"
  have ports: "\<exists>ms. rx_run (r_plus (RChr not_eol)) (q, ports @ post, []) = (rev ports @ q, post, []) # ms" for q
    using assms by (intro rx_run_plus_first) (auto simp: udp_ok_def line_end_def list_all_iff)
  have client: "\<exists>ms. rx_run (RSeq (r_lit CLIENT_PORT) (r_plus (RChr not_eol))) (q, ?c, []) =
      (rev ports @ rev CLIENT_PORT @ q, post, []) # ms" for q
    by (rule rx_run_lit_first) (rule ports)
  have semi: "\<exists>ms. rx_run (RStar (RChr not_eol_semi)) (q, mid @ ?c, []) = (rev mid @ q, ?c, []) # ms" for q
    using assms by (intro rx_run_star_first) (auto simp: udp_ok_def list_all_iff CLIENT_PORT_def not_eol_semi_def code_def)
  have prof: "\<exists>ms. rx_run (RSeq (r_lit PROFILE) (RSeq (RStar (RChr not_eol_semi))
      (RSeq (r_lit CLIENT_PORT) (r_plus (RChr not_eol))))) (q, PROFILE @ mid @ ?c, []) =
      (rev ports @ rev CLIENT_PORT @ rev mid @ rev PROFILE @ q, post, []) # ms" for q
    by (rule rx_run_lit_first, rule rx_run_seq_first [OF semi], rule client)
  have space: "\<exists>ms. rx_run (RStar (RChr is_uspace)) (q, sp @ PROFILE @ mid @ ?c, []) = (rev sp @ q, PROFILE @ mid @ ?c, []) # ms" for q
    using assms by (intro rx_run_star_first) (auto simp: udp_ok_def list_all_iff PROFILE_def is_uspace_def code_def)
  have "\<exists>ms. rx_run transport_rx (p, TRANSPORT @ sp @ PROFILE @ mid @ ?c, []) =
      (rev ports @ rev CLIENT_PORT @ rev mid @ rev PROFILE @ rev sp @ rev TRANSPORT @ p, post, []) # ms"
    unfolding transport_rx_def
    by (rule rx_run_lit_first, rule rx_run_seq_first [OF space], rule prof)
  then show ?thesis by (simp add: udp_transport_def)
qed

lemma TRANSPORT_Cons: "TRANSPORT = 84 # ustr ''ransport:''"
  by (simp add: TRANSPORT_def code_def)

lemma transport_start: "84 \<notin> set (ustr ''ransport:'')"
  by (simp add: code_def)

text \<open>The first UDP transport of a text is replaced, and the search goes on after it.\<close>

lemma transport_sub_first:
  assumes "udp_ok sp mid ports" "line_end post" "\<not> contains TRANSPORT pre"
  shows "\<exists>q. rx_sub transport_rx new p (pre @ udp_transport sp mid ports @ post) = pre @ new [] @ rx_sub transport_rx new q post"
proof -
  let ?h = "udp_transport sp mid ports"
  obtain tl where h: "?h @ post = TRANSPORT @ tl" by (simp add: udp_transport_def)
  have skip: "rx_search transport_rx p (pre @ TRANSPORT @ tl) = rx_search transport_rx (rev pre @ p) (TRANSPORT @ tl)"
    using assms(3) unfolding transport_rx_def TRANSPORT_Cons by (rule rx_search_skip_lit) (rule transport_start)
  obtain ms where "rx_run transport_rx (rev pre @ p, ?h @ post, []) = (rev ?h @ rev pre @ p, post, []) # ms"
    using transport_hit [OF assms(1,2)] by blast
  then have "rx_search transport_rx p (pre @ ?h @ post) = Some (rev pre @ p, rev ?h @ rev pre @ p, post, [])"
    unfolding h skip by (simp add: rx_search_hit)
  from rx_sub_hit [OF this, of new] show ?thesis by (auto simp: udp_transport_def TRANSPORT_Cons)
qed

lemma transport_sub_none: "\<not> contains TRANSPORT post \<Longrightarrow> rx_sub transport_rx new q post = post"
  unfolding transport_rx_def by (intro rx_sub_none rx_search_no_lit) (simp_all add: TRANSPORT_Cons)

lemma transport_sub:
  assumes "udp_ok sp mid ports" "line_end post" "\<not> contains TRANSPORT pre" "\<not> contains TRANSPORT post"
  shows "rx_sub transport_rx new [] (pre @ udp_transport sp mid ports @ post) = pre @ new [] @ post"
  using transport_sub_first [OF assms(1-3), of new "[]"] transport_sub_none [OF assms(4)] by auto

subsection \<open>The redaction\<close>

lemma r_ulit_ic_self: "rx_run (r_ulit_ic l) (p, ustr l @ s, g) = [(rev (ustr l) @ p, s, g)]"
proof (induction l arbitrary: p)
  case (Cons c l)
  have "matches_ic c (code c)"
    by (cases "is_upper c") (auto simp: matches_ic_def to_lower_def to_upper_def is_upper_def is_lower_def)
  with Cons show ?case by simp
qed simp

lemma auth_hit:
  assumes "92 \<notin> set secret" "rest = [] \<or> hd rest = 92"
  shows "\<exists>ms. rx_run auth_rx (p, ustr ''Authorization:'' @ secret @ rest, []) =
    (rev secret @ rev (ustr ''Authorization:'') @ p, rest, [(1, ustr ''Authorization:'')]) # ms"
  unfolding auth_rx_def
proof (rule rx_run_seq_first)
  let ?h = "ustr ''Authorization:''"
  show "\<exists>ms. rx_run (RGrp 1 (RAlt (r_ulit_ic ''Authorization:'') (r_ulit_ic ''WWW-Authenticate:''))) (p, ?h @ secret @ rest, []) =
      (rev ?h @ p, secret @ rest, [(1, ?h)]) # ms"
    unfolding rx_run.simps(4,6) r_ulit_ic_self by simp
  show "\<exists>ms. rx_run (RStar (RChr not_backslash)) (rev ?h @ p, secret @ rest, [(1, ?h)]) =
      (rev secret @ rev ?h @ p, rest, [(1, ?h)]) # ms"
    using assms by (intro rx_run_star_first) (auto simp: not_backslash_def)
qed

definition starts_auth :: "nat \<Rightarrow> bool" where
  "starts_auth u \<longleftrightarrow> u = 65 \<or> u = 97 \<or> u = 87 \<or> u = 119"

lemma auth_fails: "\<not> starts_auth u \<Longrightarrow> rx_fails auth_rx u"
proof -
  assume "\<not> starts_auth u"
  moreover have "to_lower (CHR ''A'') = CHR ''a''" "to_lower (CHR ''W'') = CHR ''w''"
    "to_upper (CHR ''A'') = CHR ''A''" "to_upper (CHR ''W'') = CHR ''W''" by code_simp+
  ultimately have "\<not> matches_ic (CHR ''A'') u" "\<not> matches_ic (CHR ''W'') u"
    by (simp_all add: starts_auth_def matches_ic_def code_def)
  then show ?thesis by (simp add: auth_rx_def rx_fails_def)
qed

lemma auth_none: "list_all (\<lambda>u. \<not> starts_auth u) s \<Longrightarrow> rx_search auth_rx p s = None"
proof (rule rx_search_none_all)
  assume "list_all (\<lambda>u. \<not> starts_auth u) s"
  then show "\<forall>c \<in> set s. rx_fails auth_rx c" by (simp add: list_all_iff auth_fails)
qed (simp add: auth_rx_def)

text \<open>A line whose first header is the only one with a letter A or W at which a match could start.\<close>

lemma redact_first:
  assumes "92 \<notin> set secret" "rest = [] \<or> hd rest = 92" "list_all (\<lambda>u. \<not> starts_auth u) rest"
  shows "rx_sub auth_rx redacted [] (ustr ''Authorization:'' @ secret @ rest) = ustr ''Authorization: <redacted>'' @ rest"
proof -
  let ?h = "ustr ''Authorization:''"
  obtain ms where "rx_run auth_rx ([], ?h @ secret @ rest, []) = (rev secret @ rev ?h, rest, [(1, ?h)]) # ms"
    using auth_hit [OF assms(1,2), of "[]"] by auto
  then have "rx_search auth_rx [] ([] @ (?h @ secret) @ rest) = Some (rev [] @ [], rev (?h @ secret) @ rev [] @ [], rest, [(1, ?h)])"
    by (simp add: rx_search_hit)
  from rx_sub_hit [OF this, of redacted] auth_none [OF assms(3)] show ?thesis
    by (simp add: rx_sub_none redacted_def)
qed

subsection \<open>Properties\<close>

record setup_request =
  sr_pre :: ustring
  sr_space :: ustring
  sr_mid :: ustring
  sr_ports :: ustring
  sr_post :: ustring

definition setup_text :: "setup_request \<Rightarrow> ustring" where
  "setup_text r = sr_pre r @ udp_transport (sr_space r) (sr_mid r) (sr_ports r) @ sr_post r"

text \<open>A SETUP request with exactly one UDP transport header, ended by a line end.\<close>

definition setup_ok :: "setup_request \<Rightarrow> bool" where
  "setup_ok r \<longleftrightarrow>
     udp_ok (sr_space r) (sr_mid r) (sr_ports r) \<and> line_end (sr_post r) \<and>
     \<not> contains TRANSPORT (sr_pre r) \<and> \<not> contains TRANSPORT (sr_post r) \<and>
     list_all scalar (setup_text r) \<and> contains SETUP_MARK (utf8 (setup_text r))"

definition tcp_request :: "nat \<Rightarrow> setup_request \<Rightarrow> ustring" where
  "tcp_request lo r = sr_pre r @ ustr (interleaved_transport lo) @ sr_post r"

lemma setup_data:
  assumes "setup_ok r"
  shows "pipe_data True n (utf8 (setup_text r)) = Inr (utf8 (tcp_request n r), n + 2)"
proof -
  have sc: "list_all scalar (setup_text r)" and pp: "list_all scalar (sr_pre r)" "list_all scalar (sr_post r)"
    using assms by (simp_all add: setup_ok_def setup_text_def)
  have "rx_sub transport_rx (\<lambda>_. ustr (interleaved_transport n)) [] (setup_text r) = tcp_request n r"
    using assms unfolding setup_text_def tcp_request_def setup_ok_def by (intro transport_sub) simp_all
  then have "rewrite_setup n (utf8 (setup_text r)) = Inr (utf8 (tcp_request n r))"
    using pp by (simp add: rewrite_setup_def utf8_replace_utf8 [OF sc] utf8_encode_scalar tcp_request_def)
  with assms show ?thesis by (simp add: pipe_data_def setup_ok_def)
qed

text \<open>C11
  Every SETUP request a client sends in a read of its own leaves the proxy with its UDP transport
  header replaced by interleaved TCP on a channel pair of its own (0-1, 2-3, and so on in the order of
  the requests), and with every other byte as it was.\<close>

theorem setups_interleaved:
  assumes "list_all setup_ok rs"
  shows "pipe_loop True n (map (\<lambda>r. Read (utf8 (setup_text r)) None) rs) =
    (map (\<lambda>(i, r). utf8 (tcp_request (n + 2 * i) r)) (enumerate 0 rs), False)"
proof -
  have "pipe_loop True (n + 2 * k) (map (\<lambda>r. Read (utf8 (setup_text r)) None) rs) =
      (map (\<lambda>(i, r). utf8 (tcp_request (n + 2 * i) r)) (enumerate k rs), False)" for k
    using assms
  proof (induction rs arbitrary: k)
    case (Cons r rs)
    then have "setup_text r \<noteq> []" by (auto simp: setup_text_def udp_transport_def TRANSPORT_Cons)
    with Cons.prems Cons.IH [of "Suc k"] show ?case
      by (simp add: setup_data)
  qed simp
  from this [of 0] show ?thesis by simp
qed

definition CRLF :: string where
  "CRLF = [CHR 0x0D, CHR 0x0A]"

definition sample_setup :: setup_request where
  "sample_setup = \<lparr>sr_pre = ustr (''SETUP rtsp://h/t RTSP/1.0'' @ CRLF), sr_space = ustr '' '', sr_mid = [],
     sr_ports = ustr ''5000-5001'', sr_post = ustr (CRLF @ CRLF)\<rparr>"

lemma sample_setup_text:
  "setup_text sample_setup =
     ustr (''SETUP rtsp://h/t RTSP/1.0'' @ CRLF @ ''Transport: RTP/AVP;unicast;client_port=5000-5001'' @ CRLF @ CRLF)"
  by (simp add: setup_text_def sample_setup_def udp_transport_def TRANSPORT_def PROFILE_def CLIENT_PORT_def)

lemma sample_setup_bytes:
  "utf8 (setup_text sample_setup) =
     b_lit (''SETUP rtsp://h/t RTSP/1.0'' @ CRLF @ ''Transport: RTP/AVP;unicast;client_port=5000-5001'' @ CRLF @ CRLF)"
  unfolding sample_setup_text by (rule utf8_ustr) (simp add: ascii_def CRLF_def code_def)

lemma sample_setup_ok: "setup_ok sample_setup"
proof -
  have "udp_ok (sr_space sample_setup) (sr_mid sample_setup) (sr_ports sample_setup)" "line_end (sr_post sample_setup)"
    by (simp_all add: udp_ok_def line_end_def sample_setup_def CRLF_def code_def is_uspace_def not_eol_def)
  moreover have "\<not> contains TRANSPORT (sr_pre sample_setup)" "\<not> contains TRANSPORT (sr_post sample_setup)"
    by (simp_all add: sample_setup_def TRANSPORT_def CRLF_def code_def starts_with_def)
  moreover have "contains SETUP_MARK (utf8 (setup_text sample_setup))"
    unfolding sample_setup_bytes SETUP_MARK_def contains_b_lit by (simp add: starts_with_def)
  moreover have "list_all scalar (setup_text sample_setup)" unfolding sample_setup_text by (rule scalar_ustr)
  ultimately show ?thesis by (simp add: setup_ok_def)
qed

lemma interleaved_pairs:
  "interleaved_transport 0 = ''Transport: RTP/AVP/TCP;unicast;interleaved=0-1''"
  "interleaved_transport 2 = ''Transport: RTP/AVP/TCP;unicast;interleaved=2-3''"
  by code_simp+

theorem setups_interleaved_witness:
  "fst (pipe_loop True 0 [Read (utf8 (setup_text sample_setup)) None, Read (utf8 (setup_text sample_setup)) None]) =
    [utf8 (tcp_request 0 sample_setup), utf8 (tcp_request 2 sample_setup)] \<and>
   interleaved_transport 2 = ''Transport: RTP/AVP/TCP;unicast;interleaved=2-3''"
proof -
  have "list_all setup_ok [sample_setup, sample_setup]" using sample_setup_ok by simp
  from setups_interleaved [OF this, of 0] show ?thesis by (simp add: interleaved_pairs)
qed

text \<open>C30
  Everything else passes byte for byte and in order: towards the client always, and towards the
  camera when no read contains a SETUP request; what comes after the end of the stream, an idle
  timeout or a fault is not read, and the writer is then closed.\<close>

theorem pipe_transparent:
  assumes "\<forall>d \<in> set ds. d \<noteq> [] \<and> (\<not> rewrite \<or> \<not> contains SETUP_MARK d)"
  shows "pipe_loop rewrite n (map (\<lambda>d. Read d None) ds) = (ds, False) \<and>
    pipe_loop rewrite n (map (\<lambda>d. Read d None) ds @ Read [] f # later) = (ds, True) \<and>
    pipe_loop rewrite n (map (\<lambda>d. Read d None) ds @ ReadFails e # later) = (ds, True)"
  using assms by (induction ds) (simp_all add: pipe_data_plain)

theorem pipe_transparent_witness:
  "pipe_loop True 0 [Read (b_lit ''PLAY'') None, ReadFails TimeoutError, Read (b_lit ''x'') None] = ([b_lit ''PLAY''], True)"
proof -
  have "\<not> contains SETUP_MARK (b_lit ''PLAY'')" "b_lit ''PLAY'' \<noteq> []" by code_simp+
  then show ?thesis
    using pipe_transparent [where ds = "[b_lit ''PLAY'']" and rewrite = True and n = 0 and f = None and e = TimeoutError
        and later = "[Read (b_lit ''x'') None]"] by simp
qed

lemma setup_text_ne [simp]: "setup_text r \<noteq> []"
  by (simp add: setup_text_def udp_transport_def TRANSPORT_Cons)

text \<open>The data of one read that holds two requests.\<close>

lemma two_setups_data:
  assumes "setup_ok r1" "setup_ok r2" "sr_post r1 \<noteq> []" "\<not> contains TRANSPORT (sr_post r1 @ sr_pre r2)"
  shows "pipe_data True n (utf8 (setup_text r1 @ setup_text r2)) = Inr (utf8 (tcp_request n r1 @ tcp_request n r2), n + 2)"
proof -
  let ?h = "\<lambda>r. udp_transport (sr_space r) (sr_mid r) (sr_ports r)" and ?new = "\<lambda>_ :: nat groups. ustr (interleaved_transport n)"
  note ok = assms(1,2) [unfolded setup_ok_def]
  have two: "setup_text r1 @ setup_text r2 = sr_pre r1 @ ?h r1 @ (sr_post r1 @ sr_pre r2) @ ?h r2 @ sr_post r2"
    by (simp add: setup_text_def)
  have le: "line_end ((sr_post r1 @ sr_pre r2) @ ?h r2 @ sr_post r2)"
    using ok(1) assms(3) by (simp add: line_end_def)
  obtain q where first: "rx_sub transport_rx ?new [] (setup_text r1 @ setup_text r2) =
       sr_pre r1 @ ustr (interleaved_transport n) @ rx_sub transport_rx ?new q ((sr_post r1 @ sr_pre r2) @ ?h r2 @ sr_post r2)"
    unfolding two using ok(1) le transport_sub_first by metis
  obtain q' where second: "rx_sub transport_rx ?new q ((sr_post r1 @ sr_pre r2) @ ?h r2 @ sr_post r2) =
       (sr_post r1 @ sr_pre r2) @ ustr (interleaved_transport n) @ rx_sub transport_rx ?new q' (sr_post r2)"
    using ok(2) assms(4) transport_sub_first by metis
  have sub: "rx_sub transport_rx ?new [] (setup_text r1 @ setup_text r2) = tcp_request n r1 @ tcp_request n r2"
    unfolding first second using ok(2) by (simp add: transport_sub_none tcp_request_def)
  have sc: "list_all scalar (setup_text r1 @ setup_text r2)" "list_all scalar (tcp_request n r1 @ tcp_request n r2)"
    using ok by (simp_all add: tcp_request_def setup_text_def)
  have "contains SETUP_MARK (utf8 (setup_text r1 @ setup_text r2))"
    using ok(1) by (metis utf8_append contains_iff append.assoc)
  moreover have "rewrite_setup n (utf8 (setup_text r1 @ setup_text r2)) = Inr (utf8 (tcp_request n r1 @ tcp_request n r2))"
    unfolding rewrite_setup_def utf8_replace_utf8 [OF sc(1)] sub by (rule utf8_encode_scalar [OF sc(2)])
  ultimately show ?thesis by (simp add: pipe_data_def)
qed

text \<open>The data of a read that holds the start of a request but not its transport header.\<close>

lemma setup_head_data:
  assumes "list_all scalar a" "\<not> contains TRANSPORT a" "contains SETUP_MARK (utf8 a)"
  shows "pipe_data True n (utf8 a) = Inr (utf8 a, n + 2)"
  using assms(3) by (simp add: pipe_data_def rewrite_setup_def utf8_replace_utf8 [OF assms(1)] transport_sub_none [OF assms(2)]
      utf8_encode_scalar [OF assms(1)])

lemma contains_suffix: "contains p (drop k s) \<Longrightarrow> contains p s"
  by (metis append_take_drop_id contains_iff append.assoc)

text \<open>C31
  The rewriting is one of reads, not of requests. Any two SETUP requests that arrive in one read are
  given the same channel pair. A request split inside its first word is not rewritten at all, wherever
  in the word the split lies. A request split between its first word and its transport header is not
  rewritten either, but uses up a channel pair. What follows in later reads goes on from the counter.\<close>

theorem setups_by_read:
  assumes "setup_ok r1" "setup_ok r2" "sr_post r1 \<noteq> []" "\<not> contains TRANSPORT (sr_post r1 @ sr_pre r2)"
    and "utf8 (setup_text r1) = b_lit ''SETUP '' @ rest" "\<not> contains (b_lit ''SETUP '') (tl (utf8 (setup_text r1)))"
    and "0 < k" "k < 6"
    and "setup_text r1 = a @ b" "contains (b_lit ''SETUP '') (utf8 a)" "\<not> contains TRANSPORT a" "b \<noteq> []"
  shows "pipe_loop True n (Read (utf8 (setup_text r1 @ setup_text r2)) None # later) =
      (utf8 (tcp_request n r1 @ tcp_request n r2) # fst (pipe_loop True (n + 2) later), snd (pipe_loop True (n + 2) later)) \<and>
    pipe_loop True n (Read (take k (utf8 (setup_text r1))) None # Read (drop k (utf8 (setup_text r1))) None # later) =
      (take k (utf8 (setup_text r1)) # drop k (utf8 (setup_text r1)) # fst (pipe_loop True n later), snd (pipe_loop True n later)) \<and>
    pipe_loop True n (Read (utf8 a) None # Read (utf8 b) None # later) =
      (utf8 a # utf8 b # fst (pipe_loop True (n + 2) later), snd (pipe_loop True (n + 2) later))"
proof (intro conjI)
  let ?d = "utf8 (setup_text r1)"
  note mark = SETUP_MARK_def [symmetric]
  show "pipe_loop True n (Read (utf8 (setup_text r1 @ setup_text r2)) None # later) =
      (utf8 (tcp_request n r1 @ tcp_request n r2) # fst (pipe_loop True (n + 2) later), snd (pipe_loop True (n + 2) later))"
    using two_setups_data [OF assms(1-4), of n] by (simp del: utf8_append)
  have len: "length (b_lit ''SETUP '') = 6" by (simp add: b_lit_def)
  have tail: "\<not> contains SETUP_MARK (drop j ?d)" if "0 < j" for j
    using assms(6) that contains_suffix [of SETUP_MARK "j - 1" "tl ?d"] by (auto simp: mark drop_Suc [symmetric])
  have "length ?d \<ge> 6" using assms(5) len by (simp del: utf8_append)
  then have ne: "take k ?d \<noteq> []" "drop k ?d \<noteq> []" using assms(7,8) by auto
  have "\<not> contains SETUP_MARK (take k ?d)"
  proof
    assume "contains SETUP_MARK (take k ?d)"
    then obtain x y where "take k ?d = x @ SETUP_MARK @ y" by (auto simp: contains_iff)
    from arg_cong [OF this, of length] show False using assms(8) len by (simp add: mark)
  qed
  then show "pipe_loop True n (Read (take k ?d) None # Read (drop k ?d) None # later) =
      (take k ?d # drop k ?d # fst (pipe_loop True n later), snd (pipe_loop True n later))"
    using tail [OF assms(7)] ne by (simp add: pipe_data_plain)
  have sc: "list_all scalar (a @ b)" using assms(1,9) by (simp add: setup_ok_def)
  have a: "utf8 a \<noteq> []"
  proof
    assume "utf8 a = []"
    with assms(10) have "contains (b_lit ''SETUP '') ([] :: bytes)" by (simp only:)
    with len show False by (auto simp: contains_iff)
  qed
  have "utf8 b = drop (length (utf8 a)) ?d" unfolding assms(9) by simp
  then have "\<not> contains SETUP_MARK (utf8 b)" using tail a by simp
  moreover have "utf8 b \<noteq> []" using assms(12) by simp
  ultimately show "pipe_loop True n (Read (utf8 a) None # Read (utf8 b) None # later) =
      (utf8 a # utf8 b # fst (pipe_loop True (n + 2) later), snd (pipe_loop True (n + 2) later))"
    using a sc setup_head_data [of a n] assms(10,11) by (simp add: mark pipe_data_plain)
qed

text \<open>Two copies of the sample request, and the request split in its first word and after its first line.\<close>

definition sample_line :: ustring where
  "sample_line = ustr (''SETUP rtsp://h/t RTSP/1.0'' @ CRLF)"

theorem setups_by_read_witness:
  "pipe_loop True 0 [Read (utf8 (setup_text sample_setup @ setup_text sample_setup)) None] =
     ([utf8 (tcp_request 0 sample_setup @ tcp_request 0 sample_setup)], False) \<and>
   pipe_loop True 0 [Read (take 3 (utf8 (setup_text sample_setup))) None, Read (drop 3 (utf8 (setup_text sample_setup))) None] =
     ([take 3 (utf8 (setup_text sample_setup)), drop 3 (utf8 (setup_text sample_setup))], False) \<and>
   pipe_loop True 0 [Read (utf8 sample_line) None, Read (utf8 (drop 27 (setup_text sample_setup))) None] =
     ([utf8 sample_line, utf8 (drop 27 (setup_text sample_setup))], False)"
proof -
  let ?b = "''Transport: RTP/AVP;unicast;client_port=5000-5001'' @ CRLF @ CRLF"
  have post: "sr_post sample_setup \<noteq> []" "\<not> contains TRANSPORT (sr_post sample_setup @ sr_pre sample_setup)"
    by (simp_all add: sample_setup_def CRLF_def code_def TRANSPORT_def starts_with_def)
  have mark: "utf8 (setup_text sample_setup) = b_lit ''SETUP '' @ b_lit (''rtsp://h/t RTSP/1.0'' @ CRLF @ ?b)"
    unfolding sample_setup_bytes by (simp add: b_lit_def)
  have once: "\<not> contains (b_lit ''SETUP '') (tl (utf8 (setup_text sample_setup)))"
  proof -
    have "tl (utf8 (setup_text sample_setup)) = b_lit (''ETUP rtsp://h/t RTSP/1.0'' @ CRLF @ ?b)"
      unfolding sample_setup_bytes by (simp add: b_lit_def)
    then show ?thesis unfolding contains_b_lit by (simp add: contains_b_lit starts_with_def CRLF_def)
  qed
  have split: "setup_text sample_setup = sample_line @ drop 27 (setup_text sample_setup)"
    "drop 27 (setup_text sample_setup) \<noteq> []"
    unfolding sample_setup_text sample_line_def by (simp_all add: CRLF_def)
  have head: "contains (b_lit ''SETUP '') (utf8 sample_line)"
  proof -
    have "utf8 sample_line = b_lit (''SETUP rtsp://h/t RTSP/1.0'' @ CRLF)"
      unfolding sample_line_def by (rule utf8_ustr) (simp add: ascii_def CRLF_def code_def)
    then show ?thesis by (simp add: contains_b_lit starts_with_def)
  qed
  have bare: "\<not> contains TRANSPORT sample_line"
    by (simp add: sample_line_def TRANSPORT_def CRLF_def code_def starts_with_def)
  have k: "0 < (3 :: nat)" "(3 :: nat) < 6" by simp_all
  show ?thesis
    using setups_by_read [OF sample_setup_ok sample_setup_ok post mark once k split(1) head bare split(2), of 0 "[]"]
    by (simp only: pipe_loop.simps(1) fst_conv snd_conv)
qed

lemma replace_all_none: "hd old \<notin> set s \<Longrightarrow> old \<noteq> [] \<Longrightarrow> replace_all old new s = s"
  by (induction s) (auto simp: starts_with_def neq_Nil_conv)

text \<open>
  The log redaction ends at a backslash: an Authorization header is hidden up to the first backslash
  in it, and what follows there, be it the rest of a digest response, stays in the preview.\<close>

lemma redaction_leak:
  assumes "ascii (secret @ tail)" "length secret + length tail \<le> 480" "CHR 0x5C \<notin> set secret"
    "CHR 0x0D \<notin> set (secret @ tail)" "tail = [] \<or> hd tail = CHR 0x5C" "list_all (\<lambda>u. \<not> starts_auth u) (ustr tail)"
  shows "log_preview (b_lit (''Authorization:'' @ secret @ tail)) = ustr (''Authorization: <redacted>'' @ tail)"
proof -
  let ?t = "''Authorization:'' @ secret @ tail"
  have bk: "code (CHR 0x5C) = 92" "code (CHR 0x0D) = 13" by (simp_all add: code_def)
  have a: "ascii ?t" using assms(1) by (simp add: ascii_def code_def)
  have "take 500 (b_lit ?t) = b_lit ?t" using assms(2) by (simp add: b_lit_def)
  then have t: "utf8_replace (take 500 (b_lit ?t)) = ustr ?t" using utf8_replace_b_lit [OF a] by (simp only:)
  have "CHR 0x0D \<notin> set ?t" using assms(4) by simp
  then have "hd [13, 10] \<notin> set (ustr ?t)" unfolding code_in_ustr [symmetric] bk by (simp only: list.sel, simp)
  then have r: "replace_all [13, 10] new (ustr ?t) = ustr ''Authorization:'' @ ustr secret @ ustr tail" for new
    by (subst replace_all_none) (simp_all only: ustr_append, simp_all only: list.distinct not_False_eq_True)
  have "92 \<notin> set (ustr secret)" "ustr tail = [] \<or> hd (ustr tail) = 92"
    using assms(3,5) bk code_in_ustr [of "CHR 0x5C" secret] by (auto simp: ustr_def hd_map)
  then show ?thesis
    unfolding log_preview_def t r unfolding ustr_append by (rule redact_first) (rule assms(6))
qed

lemma redaction_leak_instance:
  "contains (ustr ''response=1f'') (log_preview (b_lit (''Authorization:'' @ '' Digest username=a'' @ CHR 0x5C # ''b,response=1f'')))"
proof -
  have "ascii ('' Digest username=a'' @ CHR 0x5C # ''b,response=1f'')" "CHR 0x5C \<notin> set '' Digest username=a''"
    "CHR 0x0D \<notin> set ('' Digest username=a'' @ CHR 0x5C # ''b,response=1f'')"
    "list_all (\<lambda>u. \<not> starts_auth u) (ustr (CHR 0x5C # ''b,response=1f''))"
    by (simp_all add: ascii_def code_def starts_auth_def)
  then have "log_preview (b_lit (''Authorization:'' @ '' Digest username=a'' @ CHR 0x5C # ''b,response=1f'')) =
      ustr (''Authorization: <redacted>'' @ CHR 0x5C # ''b,response=1f'')"
    using redaction_leak [of "'' Digest username=a''" "CHR 0x5C # ''b,response=1f''"] by simp
  moreover have "contains (ustr ''response=1f'') (ustr (''Authorization: <redacted>'' @ CHR 0x5C # ''b,response=1f''))"
    by (simp add: code_def starts_with_def)
  ultimately show ?thesis by (simp only:)
qed

end
