(* ===== verification/TlsProxy.thy ===== *)
theory TlsProxy
  imports TlsBreaker TlsPipe
begin

section \<open>Starting and stopping TLS proxies\<close>

text \<open>
  \<open>start_tls_proxy\<close>, \<open>stop_tls_proxy\<close>, \<open>stop_all_proxies\<close> and the handlers of a running proxy, over
  the two dictionaries the callers share. A server is a number; \<open>px_all\<close> holds what its object and
  its closure keep, also after it has left the dictionaries. Closing a server stops its listening
  socket and its clients; waiting for that is bounded by five seconds and its outcome is swallowed,
  so it is only a point at which other tasks run. Each operation is first one function, then the
  step relation lets any number of starts, one stop-all, client connections and callbacks interleave
  at their awaits. \<open>px_starting\<close> are the cameras whose start has not yet bound its socket,
  \<open>px_stopping\<close> the cameras a stop-all has still to stop, \<open>px_pending\<close> the servers whose breaker
  fired and whose \<open>on_proxy_died\<close> is due, \<open>px_died\<close> those for which it was called.
\<close>

subsection \<open>State\<close>

record tls_server =
  sv_cam :: string
  sv_port :: nat
  sv_listening :: bool
  sv_breaker :: breaker

record proxies =
  px_ports :: "(string, nat) dict"
  px_servers :: "(string, nat) dict"
  px_all :: "nat \<Rightarrow> tls_server option"
  px_next :: nat
  px_starting :: "string list"
  px_stopping :: "string list option"
  px_pending :: "nat list"
  px_died :: "nat list"

subsection \<open>Operations\<close>

definition close_server :: "nat \<Rightarrow> proxies \<Rightarrow> proxies" where
  "close_server i st =
     (case px_all st i of
        None \<Rightarrow> st
      | Some s \<Rightarrow> st\<lparr>px_all := (px_all st)(i \<mapsto> s\<lparr>sv_listening := False\<rparr>)\<rparr>)"

definition evict :: "string \<Rightarrow> proxies \<Rightarrow> proxies" where
  "evict cam st = st\<lparr>px_ports := dict_pop cam (px_ports st), px_servers := dict_pop cam (px_servers st)\<rparr>"

definition stop_tls_proxy :: "string \<Rightarrow> proxies \<Rightarrow> proxies" where
  "stop_tls_proxy cam st =
     (case dict_get (px_servers st) cam of
        None \<Rightarrow> evict cam st
      | Some i \<Rightarrow> close_server i (evict cam st))"

definition begin_start :: "string \<Rightarrow> proxies \<Rightarrow> proxies" where
  "begin_start cam st =
     (let st' = (if dict_get (px_ports st) cam \<noteq> None \<or> dict_get (px_servers st) cam \<noteq> None
                 then stop_tls_proxy cam st else st)
      in st'\<lparr>px_starting := cam # px_starting st'\<rparr>)"

definition publish :: "string \<Rightarrow> nat \<Rightarrow> proxies \<Rightarrow> proxies" where
  "publish cam port st =
     st\<lparr>px_all := (px_all st)(px_next st \<mapsto>
          \<lparr>sv_cam = cam, sv_port = port, sv_listening = True, sv_breaker = fresh_breaker\<rparr>),
        px_ports := dict_set cam port (px_ports st),
        px_servers := dict_set cam (px_next st) (px_servers st),
        px_next := px_next st + 1,
        px_starting := remove1 cam (px_starting st)\<rparr>"

definition start_tls_proxy :: "string \<Rightarrow> nat \<Rightarrow> proxies \<Rightarrow> proxies" where
  "start_tls_proxy cam port st = publish cam port (begin_start cam st)"

definition begin_stop_all :: "proxies \<Rightarrow> proxies" where
  "begin_stop_all st = st\<lparr>px_stopping := Some (map fst (px_servers st))\<rparr>"

definition finish_stop_all :: "proxies \<Rightarrow> proxies" where
  "finish_stop_all st = st\<lparr>px_ports := [], px_servers := [], px_stopping := None\<rparr>"

definition stop_all_proxies :: "proxies \<Rightarrow> proxies" where
  "stop_all_proxies st = finish_stop_all (fold stop_tls_proxy (map fst (px_servers st)) st)"

subsection \<open>The handler of a client connection\<close>

definition set_breaker :: "nat \<Rightarrow> (breaker \<Rightarrow> breaker) \<Rightarrow> proxies \<Rightarrow> proxies" where
  "set_breaker i f st =
     (case px_all st i of
        None \<Rightarrow> st
      | Some s \<Rightarrow> st\<lparr>px_all := (px_all st)(i \<mapsto> s\<lparr>sv_breaker := f (sv_breaker s)\<rparr>)\<rparr>)"

text \<open>\<open>_fire_on_proxy_died\<close> up to its await: a superseded server closes itself and nothing else.\<close>

definition fire_on_proxy_died :: "nat \<Rightarrow> proxies \<Rightarrow> proxies" where
  "fire_on_proxy_died i st =
     (case px_all st i of
        None \<Rightarrow> st
      | Some s \<Rightarrow>
          if br_fired (sv_breaker s) then st
          else
            let st1 = set_breaker i (\<lambda>b. b\<lparr>br_fired := True\<rparr>) st in
            if dict_get (px_servers st) (sv_cam s) = Some i
            then close_server i (evict (sv_cam s) st1)\<lparr>px_pending := px_pending st @ [i]\<rparr>
            else close_server i st1)"

definition connect_failed :: "nat \<Rightarrow> rat \<Rightarrow> proxies \<Rightarrow> proxies" where
  "connect_failed i now st =
     (let st1 = set_breaker i (count_failure now) st in
      case px_all st1 i of
        None \<Rightarrow> st1
      | Some s \<Rightarrow> if trips now (sv_breaker s) then fire_on_proxy_died i st1 else st1)"

definition connect_succeeded :: "nat \<Rightarrow> proxies \<Rightarrow> proxies" where
  "connect_succeeded i st = set_breaker i count_success st"

definition call_back :: "nat \<Rightarrow> proxies \<Rightarrow> proxies" where
  "call_back i st = st\<lparr>px_pending := remove1 i (px_pending st), px_died := i # px_died st\<rparr>"

text \<open>
  Keep-alive is set option by option on the writer's socket, if it has one; \<open>supported\<close> says which
  options the platform accepts, and the first one refused ends the attempt without an error.
\<close>

datatype sock_option = SO_KEEPALIVE | TCP_KEEPIDLE | TCP_KEEPINTVL | TCP_KEEPCNT

definition keepalive_options :: "(sock_option \<times> int) list" where
  "keepalive_options = [(SO_KEEPALIVE, 1), (TCP_KEEPIDLE, 30), (TCP_KEEPINTVL, 10), (TCP_KEEPCNT, 3)]"

definition set_keepalive :: "(sock_option \<Rightarrow> bool) \<Rightarrow> bool \<Rightarrow> (sock_option \<times> int) list" where
  "set_keepalive supported has_socket =
     (if has_socket then takeWhile (\<lambda>(opt, _). supported opt) keepalive_options else [])"

text \<open>After a successful connect the two pipes run until both have ended.\<close>

definition relay :: "pipe_read list \<Rightarrow> pipe_read list \<Rightarrow> (bytes list \<times> bool) \<times> (bytes list \<times> bool)" where
  "relay client cam = (pipe_loop True 0 client, pipe_loop False 0 cam)"

text \<open>
  The whole handler of one client connection: the upstream connect fails at some time, which closes the
  client, or succeeds, and the two pipes relay.
\<close>

definition handle_client ::
    "nat \<Rightarrow> attempt \<Rightarrow> pipe_read list \<Rightarrow> pipe_read list \<Rightarrow> proxies \<Rightarrow>
     ((bytes list \<times> bool) \<times> (bytes list \<times> bool)) option \<times> proxies" where
  "handle_client i upstream client cam st =
     (case upstream of
        Fails now \<Rightarrow> (None, connect_failed i now st)
      | Connects \<Rightarrow> (Some (relay client cam), connect_succeeded i st))"

subsection \<open>Interleavings\<close>

text \<open>
  \<open>serial\<close> is the discipline of a careful caller: no second start of a camera while one is under way,
  and no proxy published while a stop-all is under way.
\<close>

inductive px_step :: "bool \<Rightarrow> proxies \<Rightarrow> proxies \<Rightarrow> bool" for serial where
  start: "serial \<longrightarrow> cam \<notin> set (px_starting st) \<Longrightarrow> px_step serial st (begin_start cam st)"
| bound: "cam \<in> set (px_starting st) \<Longrightarrow> serial \<longrightarrow> px_stopping st = None \<Longrightarrow>
    px_step serial st (publish cam port st)"
| bind_failed: "cam \<in> set (px_starting st) \<Longrightarrow>
    px_step serial st (st\<lparr>px_starting := remove1 cam (px_starting st)\<rparr>)"
| stop: "px_step serial st (stop_tls_proxy cam st)"
| stop_all: "px_stopping st = None \<Longrightarrow> px_step serial st (begin_stop_all st)"
| stop_next: "px_stopping st = Some (cam # cams) \<Longrightarrow>
    px_step serial st ((stop_tls_proxy cam st)\<lparr>px_stopping := Some cams\<rparr>)"
| stop_done: "px_stopping st = Some [] \<Longrightarrow> px_step serial st (finish_stop_all st)"
| failed: "px_step serial st (connect_failed i now st)"
| connected: "px_step serial st (connect_succeeded i st)"
| died: "i \<in> set (px_pending st) \<Longrightarrow> px_step serial st (call_back i st)"

definition no_proxies :: proxies where
  "no_proxies = \<lparr>px_ports = [], px_servers = [], px_all = (\<lambda>_. None), px_next = 0, px_starting = [],
     px_stopping = None, px_pending = [], px_died = []\<rparr>"

lemma handle_client_step: "px_step serial st (snd (handle_client i upstream client cam st))"
  by (cases upstream) (simp_all add: handle_client_def px_step.failed px_step.connected)

inductive px_reach :: "bool \<Rightarrow> proxies \<Rightarrow> bool" for serial where
  init: "px_reach serial no_proxies"
| step: "px_reach serial st \<Longrightarrow> px_step serial st st' \<Longrightarrow> px_reach serial st'"

subsection \<open>What the operations do to the dictionaries and to the servers\<close>

abbreviation cached :: "proxies \<Rightarrow> string \<Rightarrow> nat option" where
  "cached st cam \<equiv> dict_get (px_servers st) cam"

abbreviation ported :: "proxies \<Rightarrow> string \<Rightarrow> nat option" where
  "ported st cam \<equiv> dict_get (px_ports st) cam"

lemma dict_simps [simp]:
  "dict_get (dict_set k v d) k' = (if k' = k then Some v else dict_get d k')"
  "dict_get (dict_pop k d) k' = (if k' = k then None else dict_get d k')"
  "dict_get [] k = None"
  by (simp_all add: dict_get_def dict_set_def dict_pop_def update_conv' delete_conv')

lemma dict_get_keyD: "dict_get d k = Some v \<Longrightarrow> k \<in> fst ` set d"
  by (force simp: dict_get_def dest: map_of_SomeD)

text \<open>Every operation is one of these four on the servers, so these are the cases of the invariants.\<close>

lemma close_server_simps [simp]:
  "px_ports (close_server i st) = px_ports st" "px_servers (close_server i st) = px_servers st"
  "px_next (close_server i st) = px_next st" "px_starting (close_server i st) = px_starting st"
  "px_stopping (close_server i st) = px_stopping st" "px_pending (close_server i st) = px_pending st"
  "px_died (close_server i st) = px_died st"
  "px_all (close_server i st) j = (if j = i then map_option (\<lambda>s. s\<lparr>sv_listening := False\<rparr>) (px_all st i) else px_all st j)"
  by (auto simp: close_server_def split: option.split)

lemma set_breaker_simps [simp]:
  "px_ports (set_breaker i f st) = px_ports st" "px_servers (set_breaker i f st) = px_servers st"
  "px_next (set_breaker i f st) = px_next st" "px_starting (set_breaker i f st) = px_starting st"
  "px_stopping (set_breaker i f st) = px_stopping st" "px_pending (set_breaker i f st) = px_pending st"
  "px_died (set_breaker i f st) = px_died st"
  "px_all (set_breaker i f st) j = (if j = i then map_option (\<lambda>s. s\<lparr>sv_breaker := f (sv_breaker s)\<rparr>) (px_all st i) else px_all st j)"
  by (auto simp: set_breaker_def split: option.split)

lemma evict_simps [simp]:
  "px_all (evict cam st) = px_all st" "px_next (evict cam st) = px_next st" "px_starting (evict cam st) = px_starting st"
  "px_stopping (evict cam st) = px_stopping st" "px_pending (evict cam st) = px_pending st" "px_died (evict cam st) = px_died st"
  "cached (evict cam st) c = (if c = cam then None else cached st c)"
  "ported (evict cam st) c = (if c = cam then None else ported st c)"
  by (simp_all add: evict_def)

subsection \<open>The invariant of all interleavings\<close>

text \<open>A cached proxy: listening, of that camera, on the published port, and its breaker has not fired.\<close>

definition slot_ok :: "proxies \<Rightarrow> string \<Rightarrow> nat \<Rightarrow> bool" where
  "slot_ok st cam i \<longleftrightarrow>
     (\<exists>s. px_all st i = Some s \<and> sv_cam s = cam \<and> sv_listening s \<and> ported st cam = Some (sv_port s) \<and>
        \<not> br_fired (sv_breaker s))"

definition fired :: "proxies \<Rightarrow> nat \<Rightarrow> bool" where
  "fired st i \<longleftrightarrow> (\<exists>s. px_all st i = Some s \<and> br_fired (sv_breaker s))"

definition px_inv :: "proxies \<Rightarrow> bool" where
  "px_inv st \<longleftrightarrow>
     (\<forall>cam. cached st cam = None \<longrightarrow> ported st cam = None) \<and>
     (\<forall>cam i. cached st cam = Some i \<longrightarrow> slot_ok st cam i) \<and>
     (\<forall>i. px_next st \<le> i \<longrightarrow> px_all st i = None) \<and>
     distinct (px_pending st @ px_died st) \<and>
     (\<forall>i \<in> set (px_pending st @ px_died st). fired st i)"

lemma px_inv_slot: "px_inv st \<Longrightarrow> cached st cam = Some i \<Longrightarrow> slot_ok st cam i"
  by (simp add: px_inv_def)

lemma slot_ok_unique: "slot_ok st c i \<Longrightarrow> slot_ok st c' i \<Longrightarrow> c = c'"
  by (auto simp: slot_ok_def)

lemma px_inv_unique: "px_inv st \<Longrightarrow> cached st c = Some i \<Longrightarrow> cached st c' = Some i \<Longrightarrow> c = c'"
  by (blast dest: px_inv_slot slot_ok_unique)

lemma slot_ok_simps [simp]:
  "slot_ok (evict c st) cam i \<longleftrightarrow> c \<noteq> cam \<and> slot_ok st cam i"
  "j \<noteq> i \<Longrightarrow> slot_ok (close_server j st) cam i \<longleftrightarrow> slot_ok st cam i"
  "j \<noteq> i \<Longrightarrow> slot_ok (set_breaker j f st) cam i \<longleftrightarrow> slot_ok st cam i"
  "(\<And>b. br_fired (f b) = br_fired b) \<Longrightarrow> slot_ok (set_breaker j f st) cam i \<longleftrightarrow> slot_ok st cam i"
  by (auto simp: slot_ok_def)

lemma fired_simps [simp]:
  "fired (evict c st) i \<longleftrightarrow> fired st i"
  "fired (close_server j st) i \<longleftrightarrow> fired st i"
  "j \<noteq> i \<Longrightarrow> fired (set_breaker j f st) i \<longleftrightarrow> fired st i"
  "(\<And>b. br_fired (f b) = br_fired b) \<Longrightarrow> fired (set_breaker j f st) i \<longleftrightarrow> fired st i"
  by (auto simp: fired_def)

lemma slot_fired_frame [simp]:
  "slot_ok (st\<lparr>px_starting := x\<rparr>) cam i = slot_ok st cam i" "slot_ok (st\<lparr>px_stopping := y\<rparr>) cam i = slot_ok st cam i"
  "slot_ok (st\<lparr>px_pending := z\<rparr>) cam i = slot_ok st cam i" "slot_ok (st\<lparr>px_died := z\<rparr>) cam i = slot_ok st cam i"
  "fired (st\<lparr>px_starting := x\<rparr>) i = fired st i" "fired (st\<lparr>px_stopping := y\<rparr>) i = fired st i"
  "fired (st\<lparr>px_pending := z\<rparr>) i = fired st i" "fired (st\<lparr>px_died := z\<rparr>) i = fired st i"
  by (simp_all add: slot_ok_def fired_def)

lemma px_inv_evict: "px_inv st \<Longrightarrow> px_inv (evict cam st)"
  by (auto simp: px_inv_def)

lemma px_inv_close: "px_inv st \<Longrightarrow> (\<And>c. cached st c \<noteq> Some i) \<Longrightarrow> px_inv (close_server i st)"
  unfolding px_inv_def by (auto, metis slot_ok_simps(2))

lemma px_inv_breaker:
  "px_inv st \<Longrightarrow> (\<And>b. br_fired (f b) = br_fired b) \<Longrightarrow> px_inv (set_breaker i f st)"
  unfolding px_inv_def by simp

lemma px_inv_stop: 
  assumes "px_inv st"
  shows "px_inv (stop_tls_proxy cam st)"
proof (cases "cached st cam")
  case (Some i)
  have "cached (evict cam st) c \<noteq> Some i" for c
    using px_inv_unique [OF assms Some, of c] by auto
  with Some assms show ?thesis by (auto simp: stop_tls_proxy_def intro: px_inv_close px_inv_evict)
qed (simp add: stop_tls_proxy_def assms px_inv_evict)

lemma px_inv_frame:
  "px_inv st \<Longrightarrow> px_inv (st\<lparr>px_starting := x\<rparr>)" "px_inv st \<Longrightarrow> px_inv (st\<lparr>px_stopping := y\<rparr>)"
  by (simp_all add: px_inv_def)

lemma px_inv_begin_start: "px_inv st \<Longrightarrow> px_inv (begin_start cam st)"
  by (auto simp: begin_start_def Let_def intro: px_inv_frame px_inv_stop)

lemma publish_simps [simp]:
  "cached (publish cam port st) c = (if c = cam then Some (px_next st) else cached st c)"
  "ported (publish cam port st) c = (if c = cam then Some port else ported st c)"
  "px_next (publish cam port st) = Suc (px_next st)" "px_pending (publish cam port st) = px_pending st"
  "px_died (publish cam port st) = px_died st" "px_starting (publish cam port st) = remove1 cam (px_starting st)"
  "px_stopping (publish cam port st) = px_stopping st"
  "px_all (publish cam port st) i = (if i = px_next st
     then Some \<lparr>sv_cam = cam, sv_port = port, sv_listening = True, sv_breaker = fresh_breaker\<rparr> else px_all st i)"
  "slot_ok (publish cam port st) cam (px_next st)"
  "c \<noteq> cam \<Longrightarrow> i \<noteq> px_next st \<Longrightarrow> slot_ok (publish cam port st) c i \<longleftrightarrow> slot_ok st c i"
  "i \<noteq> px_next st \<Longrightarrow> fired (publish cam port st) i \<longleftrightarrow> fired st i"
  by (auto simp: publish_def slot_ok_def fired_def fresh_breaker_def)

lemma px_inv_next: "px_inv st \<Longrightarrow> px_all st (px_next st) = None"
  by (simp add: px_inv_def)

lemma px_inv_publish:
  assumes "px_inv st"
  shows "px_inv (publish cam port st)"
proof -
  let ?n = "px_next st"
  have "\<not> fired st ?n" "\<And>c. \<not> slot_ok st c ?n" using px_inv_next [OF assms] by (simp_all add: fired_def slot_ok_def)
  with assms have n: "?n \<notin> set (px_pending st @ px_died st)" "\<And>c. cached st c \<noteq> Some ?n"
    unfolding px_inv_def by blast+
  have "slot_ok (publish cam port st) c i" if "cached (publish cam port st) c = Some i" for c i
    using that n px_inv_slot [OF assms, of c i] by (metis publish_simps(1,9,10) option.inject)
  moreover have "fired (publish cam port st) i" if "i \<in> set (px_pending st @ px_died st)" for i
    using that n assms unfolding px_inv_def by (metis publish_simps(11))
  ultimately show ?thesis using assms unfolding px_inv_def by simp
qed

text \<open>A server that is in no dictionary fires its breaker and closes.\<close>

lemma px_inv_trip:
  assumes "px_inv st" "\<And>c. cached st c \<noteq> Some i" "px_all st i \<noteq> None" "\<not> fired st i"
  defines "st' \<equiv> close_server i (set_breaker i (\<lambda>b. b\<lparr>br_fired := True\<rparr>) st)"
  shows "px_inv st'" "px_inv (st'\<lparr>px_pending := px_pending st @ [i]\<rparr>)"
proof -
  have i: "fired st' i" using assms(3) by (auto simp: fired_def st'_def)
  have fr: "fired st' j" if "fired st j" for j using that i by (cases "j = i") (simp_all add: st'_def)
  have sl: "slot_ok st' c j" if "cached st c = Some j" for c j
  proof -
    have "j \<noteq> i" using that assms(2) by auto
    then show ?thesis using px_inv_slot [OF assms(1) that] by (simp add: st'_def)
  qed
  have new: "i \<notin> set (px_pending st @ px_died st)" using assms(1,4) unfolding px_inv_def by blast
  show "px_inv st'" using assms(1,3) sl fr unfolding px_inv_def by (auto simp: st'_def)
  show "px_inv (st'\<lparr>px_pending := px_pending st @ [i]\<rparr>)"
    using assms(1,3) sl fr i new unfolding px_inv_def by (auto simp: st'_def)
qed

lemma evict_set_breaker: "evict c (set_breaker i f st) = set_breaker i f (evict c st)"
  by (simp add: evict_def set_breaker_def split: option.split)

lemma px_inv_fire:
  assumes "px_inv st"
  shows "px_inv (fire_on_proxy_died i st)"
proof (cases "px_all st i")
  case (Some s)
  show ?thesis
  proof (cases "br_fired (sv_breaker s)")
    case False
    have nf: "\<not> fired st i" using Some False by (simp add: fired_def)
    show ?thesis
    proof (cases "cached st (sv_cam s) = Some i")
      case True
      then have "cached (evict (sv_cam s) st) c \<noteq> Some i" for c
        using px_inv_unique [OF assms True, of c] by auto
      then show ?thesis
        using px_inv_trip(2) [of "evict (sv_cam s) st" i] px_inv_evict [OF assms] True Some False nf
        by (simp add: fire_on_proxy_died_def Let_def evict_set_breaker)
    next
      case c: False
      have "cached st c \<noteq> Some i" for c
        using c Some px_inv_slot [OF assms, of c i] by (auto simp: slot_ok_def)
      then show ?thesis
        using px_inv_trip(1) [of st i] assms c Some False nf by (simp add: fire_on_proxy_died_def Let_def)
    qed
  qed (simp add: fire_on_proxy_died_def Some assms)
qed (simp add: fire_on_proxy_died_def assms)

lemma px_inv_failed: "px_inv st \<Longrightarrow> px_inv (connect_failed i now st)"
  by (auto simp: connect_failed_def Let_def count_failure_def intro!: px_inv_fire px_inv_breaker split: option.split)

lemma px_inv_step: "px_step serial st st' \<Longrightarrow> px_inv st \<Longrightarrow> px_inv st'"
proof (induction rule: px_step.induct)
  case (stop_done st)
  then show ?case by (simp add: finish_stop_all_def px_inv_def slot_ok_def fired_def)
next
  case (died i st)
  then show ?case by (auto simp: call_back_def px_inv_def slot_ok_def fired_def notin_set_remove1)
qed (simp_all add: px_inv_begin_start px_inv_publish px_inv_frame px_inv_stop begin_stop_all_def px_inv_failed
      connect_succeeded_def px_inv_breaker count_success_def)

lemma px_inv_reach: "px_reach serial st \<Longrightarrow> px_inv st"
proof (induction rule: px_reach.induct)
  case init
  show ?case by (simp add: no_proxies_def px_inv_def)
next
  case (step st st')
  then show ?case by (blast intro: px_inv_step)
qed

subsection \<open>The invariant of careful callers\<close>

text \<open>No server listens that is not the cached one of its camera, and starting cameras have none.\<close>

definition tidy :: "proxies \<Rightarrow> bool" where
  "tidy st \<longleftrightarrow>
     (\<forall>i s. px_all st i = Some s \<and> sv_listening s \<longrightarrow> cached st (sv_cam s) = Some i) \<and>
     distinct (px_starting st) \<and> (\<forall>cam \<in> set (px_starting st). cached st cam = None) \<and>
     (\<forall>cams cam. px_stopping st = Some cams \<and> cached st cam \<noteq> None \<longrightarrow> cam \<in> set cams)"

lemma tidyD:
  "tidy st \<Longrightarrow> px_all st i = Some s \<Longrightarrow> sv_listening s \<Longrightarrow> cached st (sv_cam s) = Some i"
  "tidy st \<Longrightarrow> cam \<in> set (px_starting st) \<Longrightarrow> cached st cam = None"
  "tidy st \<Longrightarrow> px_stopping st = Some cams \<Longrightarrow> cached st cam \<noteq> None \<Longrightarrow> cam \<in> set cams"
  by (auto simp: tidy_def)

lemma tidy_breaker: "tidy st \<Longrightarrow> tidy (set_breaker i f st)"
  unfolding tidy_def by (auto split: if_splits)

lemma tidy_close: "tidy st \<Longrightarrow> tidy (close_server i st)"
  unfolding tidy_def by (auto split: if_splits)

lemma tidy_close_evict:
  assumes "tidy st" "cached st cam = Some i \<or> cached st cam = None"
  shows "tidy (close_server i (evict cam st))"
  unfolding tidy_def using assms tidyD(1) [OF assms(1)] tidyD(2,3) [OF assms(1)]
  by (auto split: if_splits) (auto simp: tidy_def)

lemma tidy_evict: "tidy st \<Longrightarrow> cached st cam = None \<Longrightarrow> tidy (evict cam st)"
  unfolding tidy_def by auto

lemma tidy_stop: "tidy st \<Longrightarrow> tidy (stop_tls_proxy cam st)"
  by (cases "cached st cam") (simp_all add: stop_tls_proxy_def tidy_evict tidy_close_evict)

lemma stop_simps [simp]:
  "cached (stop_tls_proxy cam st) c = (if c = cam then None else cached st c)"
  "px_starting (stop_tls_proxy cam st) = px_starting st" "px_stopping (stop_tls_proxy cam st) = px_stopping st"
  by (auto simp: stop_tls_proxy_def split: option.split)

lemma tidy_begin_start:
  assumes "tidy st" "px_inv st" "cam \<notin> set (px_starting st)"
  shows "tidy (begin_start cam st)"
proof (cases "cached st cam = None")
  case True
  with assms have "ported st cam = None" by (simp add: px_inv_def)
  with True assms show ?thesis by (simp add: begin_start_def tidy_def)
next
  case False
  with tidy_stop [OF assms(1), of cam] assms(3) show ?thesis by (simp add: begin_start_def tidy_def)
qed

lemma tidy_publish:
  assumes "tidy st" "px_inv st" "cam \<in> set (px_starting st)" "px_stopping st = None"
  shows "tidy (publish cam port st)"
proof -
  have "cached st cam = None" using tidyD(2) [OF assms(1,3)] .
  with assms show ?thesis unfolding tidy_def by (auto split: if_splits)
qed

lemma tidy_pending: "tidy st \<Longrightarrow> tidy (st\<lparr>px_pending := z\<rparr>)"
  by (simp add: tidy_def)

lemma tidy_fire:
  assumes "tidy st"
  shows "tidy (fire_on_proxy_died i st)"
proof (cases "px_all st i")
  case (Some s)
  let ?st = "set_breaker i (\<lambda>b. b\<lparr>br_fired := True\<rparr>) st"
  have "tidy ?st" using assms by (rule tidy_breaker)
  then have "tidy (close_server i ?st)" "cached st (sv_cam s) = Some i \<Longrightarrow> tidy (close_server i (evict (sv_cam s) ?st))"
    by (simp_all add: tidy_close tidy_close_evict)
  with Some assms show ?thesis by (simp add: fire_on_proxy_died_def Let_def tidy_pending)
qed (simp add: fire_on_proxy_died_def assms)

lemma tidy_stopping:
  "tidy st \<Longrightarrow> (\<And>cam. cached st cam \<noteq> None \<Longrightarrow> cam \<in> set cams) \<Longrightarrow> tidy (st\<lparr>px_stopping := Some cams\<rparr>)"
  unfolding tidy_def by auto

lemma tidy_step: "px_step True st st' \<Longrightarrow> px_inv st \<Longrightarrow> tidy st \<Longrightarrow> tidy st'"
proof (induction rule: px_step.induct)
  case (start cam st)
  then show ?case by (simp add: tidy_begin_start)
next
  case (bound cam st port)
  then show ?case by (simp add: tidy_publish)
next
  case (bind_failed cam st)
  then show ?case by (auto simp: tidy_def dest: notin_set_remove1)
next
  case (stop_all st)
  then show ?case unfolding tidy_def begin_stop_all_def by (auto dest: dict_get_keyD)
next
  case (stop_next st cam cams)
  then have "c \<in> set cams" if "cached (stop_tls_proxy cam st) c \<noteq> None" for c
    using that tidyD(3) [of st "cam # cams" c] by (auto split: if_splits)
  with stop_next show ?case by (intro tidy_stopping tidy_stop)
next
  case (stop_done st)
  then have none: "cached st cam = None" for cam using tidyD(3) [of st "[]" cam] by (cases "cached st cam") auto
  with stop_done show ?case unfolding tidy_def finish_stop_all_def by auto
next
  case (failed st i now)
  then show ?case by (auto simp: connect_failed_def Let_def intro: tidy_fire tidy_breaker split: option.split)
next
  case (connected st i)
  then show ?case by (simp add: connect_succeeded_def tidy_breaker)
next
  case (died i st)
  then show ?case by (simp add: call_back_def tidy_def)
qed (simp add: tidy_stop)

lemma tidy_reach: "px_reach True st \<Longrightarrow> tidy st"
proof (induction rule: px_reach.induct)
  case init
  show ?case by (simp add: no_proxies_def tidy_def)
next
  case (step st st')
  then show ?case by (blast intro: tidy_step px_inv_reach)
qed

definition listens :: "proxies \<Rightarrow> nat \<Rightarrow> bool" where
  "listens st i \<longleftrightarrow> (\<exists>s. px_all st i = Some s \<and> sv_listening s)"

subsection \<open>Properties\<close>

text \<open>C9
  In every interleaving of starts, stops, connection attempts and callbacks the two dictionaries name
  the same cameras, a cached server listens on the published port for its camera and has not tripped,
  no server is in two places, and on_proxy_died is called at most once per server, only after its
  breaker fired.\<close>

theorem proxy_table_sound:
  assumes "px_reach serial st"
  shows "(cached st cam = None \<longleftrightarrow> ported st cam = None) \<and>
    (\<forall>i. cached st cam = Some i \<longrightarrow>
       (\<exists>s. px_all st i = Some s \<and> sv_cam s = cam \<and> sv_listening s \<and> ported st cam = Some (sv_port s) \<and>
          \<not> br_fired (sv_breaker s))) \<and>
    distinct (px_died st) \<and>
    (\<forall>i \<in> set (px_died st). \<exists>s. px_all st i = Some s \<and> br_fired (sv_breaker s))"
proof -
  note inv = px_inv_reach [OF assms]
  have "cached st cam = Some i \<Longrightarrow> slot_ok st cam i" for i by (rule px_inv_slot [OF inv])
  moreover have "cached st cam = None \<Longrightarrow> ported st cam = None" "distinct (px_died st)" "\<forall>i \<in> set (px_died st). fired st i"
    using inv by (simp_all add: px_inv_def)
  ultimately show ?thesis
    unfolding slot_ok_def fired_def by (cases "cached st cam") auto
qed

lemma published_reach: "px_reach serial (start_tls_proxy cam port no_proxies)"
proof -
  have "px_reach serial (begin_start cam no_proxies)"
    by (rule px_reach.step [OF px_reach.init px_step.start]) (simp add: no_proxies_def)
  then show ?thesis unfolding start_tls_proxy_def
    by (rule px_reach.step [OF _ px_step.bound]) (simp_all add: begin_start_def no_proxies_def)
qed

theorem proxy_table_sound_witness:
  "cached (start_tls_proxy ''a'' 5000 no_proxies) ''a'' = Some 0 \<and> ported (start_tls_proxy ''a'' 5000 no_proxies) ''a'' = Some 5000"
proof -
  have c: "cached (start_tls_proxy ''a'' 5000 no_proxies) ''a'' = Some 0"
    by (simp add: start_tls_proxy_def begin_start_def no_proxies_def)
  moreover have "ported (start_tls_proxy ''a'' 5000 no_proxies) ''a'' \<noteq> None"
    using proxy_table_sound [OF published_reach [of True "''a''" 5000], of "''a''"] c by auto
  ultimately show ?thesis by (simp add: start_tls_proxy_def begin_start_def no_proxies_def)
qed

text \<open>C10
  No socket is leaked when a camera is not started twice at once and nothing is published during a
  stop-all: a listening server is always the cached one of its camera, so there is at most one per
  camera, and when a stop-all has stopped its last camera nothing listens.\<close>

theorem one_proxy_per_camera:
  assumes "px_reach True st" "px_all st i = Some s" "sv_listening s"
  shows "cached st (sv_cam s) = Some i \<and>
    (\<forall>j s'. px_all st j = Some s' \<and> sv_listening s' \<and> sv_cam s' = sv_cam s \<longrightarrow> j = i) \<and>
    px_stopping st \<noteq> Some []"
proof -
  note tidy = tidy_reach [OF assms(1)]
  have c: "cached st (sv_cam s) = Some i" by (rule tidyD(1) [OF tidy assms(2,3)])
  moreover have "j = i" if "px_all st j = Some s'" "sv_listening s'" "sv_cam s' = sv_cam s" for j s'
    using tidyD(1) [OF tidy that(1,2)] that(3) c by simp
  moreover have "px_stopping st \<noteq> Some []" using tidyD(3) [OF tidy, of "[]" "sv_cam s"] c by auto
  ultimately show ?thesis by blast
qed

theorem one_proxy_per_camera_witness:
  "cached (start_tls_proxy ''a'' 5000 no_proxies) ''a'' = Some 0 \<and> px_stopping (start_tls_proxy ''a'' 5000 no_proxies) \<noteq> Some []"
proof -
  have "px_all (start_tls_proxy ''a'' 5000 no_proxies) 0 =
      Some \<lparr>sv_cam = ''a'', sv_port = 5000, sv_listening = True, sv_breaker = fresh_breaker\<rparr>"
    by (simp add: start_tls_proxy_def begin_start_def no_proxies_def)
  from one_proxy_per_camera [OF published_reach this] show ?thesis by simp
qed

text \<open>
  A server that is cached for no camera stays so, and it goes on listening until its own breaker has
  fired: no start, stop or stop-all reaches it.\<close>

definition adrift :: "nat \<Rightarrow> proxies \<Rightarrow> bool" where
  "adrift i st \<longleftrightarrow> i < px_next st \<and> (\<forall>c. cached st c \<noteq> Some i) \<and> (listens st i \<or> fired st i)"

lemma listens_simps [simp]:
  "listens (evict c st) i \<longleftrightarrow> listens st i"
  "j \<noteq> i \<Longrightarrow> listens (close_server j st) i \<longleftrightarrow> listens st i"
  "listens (set_breaker j f st) i \<longleftrightarrow> listens st i"
  "listens (st\<lparr>px_starting := x\<rparr>) i = listens st i" "listens (st\<lparr>px_stopping := y\<rparr>) i = listens st i"
  "listens (st\<lparr>px_pending := z\<rparr>) i = listens st i" "listens (st\<lparr>px_died := z\<rparr>) i = listens st i"
  by (auto simp: listens_def)

lemma adrift_stop: "adrift i st \<Longrightarrow> adrift i (stop_tls_proxy cam st)"
proof (cases "cached st cam")
  case (Some j)
  moreover assume "adrift i st"
  moreover from calculation have "j \<noteq> i" by (auto simp: adrift_def)
  ultimately show ?thesis by (simp add: stop_tls_proxy_def adrift_def)
qed (simp add: stop_tls_proxy_def adrift_def)

lemma adrift_frame [simp]:
  "adrift i (st\<lparr>px_starting := x\<rparr>) = adrift i st" "adrift i (st\<lparr>px_stopping := y\<rparr>) = adrift i st"
  "adrift i (call_back j st) = adrift i st" "adrift i (begin_stop_all st) = adrift i st"
  by (simp_all add: adrift_def call_back_def begin_stop_all_def)

lemma adrift_start: "adrift i st \<Longrightarrow> adrift i (begin_start cam st)"
  by (simp add: begin_start_def Let_def adrift_stop)

lemma adrift_publish: "adrift i st \<Longrightarrow> adrift i (publish cam port st)"
  by (auto simp: adrift_def publish_def listens_def fired_def)

lemma adrift_breaker: "adrift i st \<Longrightarrow> (\<And>b. br_fired (f b) = br_fired b) \<Longrightarrow> adrift i (set_breaker j f st)"
  by (auto simp: adrift_def)

lemma adrift_fire:
  assumes "adrift i st"
  shows "adrift i (fire_on_proxy_died j st)"
proof (cases "px_all st j")
  case (Some s)
  then have "fired (set_breaker j (\<lambda>b. b\<lparr>br_fired := True\<rparr>) st) j" by (simp add: fired_def)
  with Some assms show ?thesis
    by (cases "j = i") (auto simp: fire_on_proxy_died_def Let_def adrift_def)
qed (simp add: fire_on_proxy_died_def assms)

lemma adrift_step: "px_step serial st st' \<Longrightarrow> adrift i st \<Longrightarrow> adrift i st'"
proof (induction rule: px_step.induct)
  case (failed st j now)
  then show ?case
    by (auto simp: connect_failed_def Let_def count_failure_def intro!: adrift_fire adrift_breaker split: option.split)
next
  case (connected st j)
  then show ?case by (simp add: connect_succeeded_def adrift_breaker count_success_def)
next
  case (stop_next st cam cams)
  then show ?case by (simp add: adrift_stop)
next
  case (stop_done st)
  then show ?case by (auto simp: finish_stop_all_def adrift_def listens_def fired_def)
qed (simp_all add: adrift_start adrift_publish adrift_stop)

lemma adrift_steps: "(px_step serial)\<^sup>*\<^sup>* st st' \<Longrightarrow> adrift i st \<Longrightarrow> adrift i st'"
  by (induction rule: rtranclp_induct) (auto intro: adrift_step)

lemma reach_steps: "(px_step serial)\<^sup>*\<^sup>* st st' \<Longrightarrow> px_reach serial st \<Longrightarrow> px_reach serial st'"
  by (induction rule: rtranclp_induct) (auto intro: px_reach.step)

lemma begin_start_simps [simp]:
  "px_next (begin_start cam st) = px_next st" "px_starting (begin_start cam st) = cam # px_starting st"
  "px_stopping (begin_start cam st) = px_stopping st"
  by (auto simp: begin_start_def stop_tls_proxy_def Let_def split: option.split)

lemma listens_publish [simp]: "listens (publish cam port st) i \<longleftrightarrow> i = px_next st \<or> listens st i"
  by (auto simp: listens_def)

text \<open>Two starts of a camera whose stops both run before either has bound its socket.\<close>

definition overlap_starts :: "string \<Rightarrow> nat \<Rightarrow> nat \<Rightarrow> proxies \<Rightarrow> proxies" where
  "overlap_starts cam p q st = publish cam q (publish cam p (begin_start cam (begin_start cam st)))"

lemma overlap_steps: "(px_step False)\<^sup>*\<^sup>* st (overlap_starts cam p q st)"
proof -
  let ?s1 = "begin_start cam st" and ?s2 = "begin_start cam (begin_start cam st)"
  have "px_step False st ?s1" "px_step False ?s1 ?s2" by (simp_all add: px_step.start)
  moreover have "px_step False ?s2 (publish cam p ?s2)" by (rule px_step.bound) simp_all
  moreover have "px_step False (publish cam p ?s2) (overlap_starts cam p q st)"
    unfolding overlap_starts_def by (rule px_step.bound) (simp_all add: publish_def)
  ultimately show ?thesis by (meson converse_rtranclp_into_rtranclp rtranclp.rtrancl_refl)
qed

lemma overlap_adrift:
  assumes "px_inv st"
  shows "adrift (px_next st) (overlap_starts cam p q st)"
proof -
  let ?s = "begin_start cam (begin_start cam st)"
  have "px_inv ?s" using assms by (intro px_inv_begin_start)
  then have "px_all ?s (px_next st) = None" by (simp add: px_inv_def)
  then have "cached ?s c \<noteq> Some (px_next st)" for c
    using px_inv_slot [OF \<open>px_inv ?s\<close>, of c "px_next st"] by (auto simp: slot_ok_def)
  then show ?thesis by (simp add: adrift_def overlap_starts_def)
qed

text \<open>C33
  The discipline is needed. From any reachable state, two starts of one camera that overlap, both past
  their stop of the old proxy before either has bound its socket, leave the first server listening and
  in no dictionary; and whatever runs afterwards, stops and stop-alls included, it is never cached
  again and goes on listening unless its own breaker fires, although every start promises to stop the
  old proxy. The same two starts one after the other close the first server.\<close>

theorem overlapping_starts_orphan:
  assumes "px_reach False st" "(px_step False)\<^sup>*\<^sup>* (publish cam q (publish cam p (begin_start cam (begin_start cam st)))) st'"
  shows "px_reach False st' \<and> cached st' c \<noteq> Some (px_next st) \<and>
    (listens st' (px_next st) \<or> (\<exists>s. px_all st' (px_next st) = Some s \<and> br_fired (sv_breaker s))) \<and>
    \<not> listens (publish cam q (begin_start cam (publish cam p (begin_start cam st)))) (px_next st)"
proof -
  note inv = px_inv_reach [OF assms(1)]
  note run = assms(2) [folded overlap_starts_def]
  have reach: "px_reach False st'" using reach_steps [OF run reach_steps [OF overlap_steps assms(1)]] .
  have drift: "adrift (px_next st) st'" using adrift_steps [OF run overlap_adrift [OF inv]] .
  let ?one = "publish cam p (begin_start cam st)"
  have "\<not> listens (begin_start cam ?one) (px_next st)"
    by (simp add: begin_start_def [of cam ?one] stop_tls_proxy_def) (auto simp: listens_def)
  then have "\<not> listens (publish cam q (begin_start cam ?one)) (px_next st)" by simp
  with reach drift show ?thesis by (simp add: adrift_def fired_def)
qed

theorem overlapping_starts_orphan_witness:
  "listens (stop_tls_proxy ''a'' (overlap_starts ''a'' 5000 5001 no_proxies)) 0 \<and>
   listens (overlap_starts ''a'' 5000 5001 no_proxies) 1 \<and>
   cached (overlap_starts ''a'' 5000 5001 no_proxies) ''a'' = Some 1"
proof -
  let ?s = "overlap_starts ''a'' 5000 5001 no_proxies"
  have steps: "(px_step False)\<^sup>*\<^sup>* ?s (stop_tls_proxy ''a'' ?s)" by (rule r_into_rtranclp) (rule px_step.stop)
  have zero: "px_next no_proxies = 0" by (simp add: no_proxies_def)
  have "\<not> (\<exists>s. px_all (stop_tls_proxy ''a'' ?s) 0 = Some s \<and> br_fired (sv_breaker s))"
    by (simp add: overlap_starts_def stop_tls_proxy_def publish_def begin_start_def no_proxies_def fresh_breaker_def)
  moreover have "listens ?s 1" "cached ?s ''a'' = Some 1"
    by (simp_all add: overlap_starts_def no_proxies_def)
  ultimately show ?thesis
    using overlapping_starts_orphan [OF px_reach.init steps [unfolded overlap_starts_def], of "''a''"]
    unfolding zero overlap_starts_def by blast
qed

text \<open>
  A trip of a superseded server is local: it closes that server and changes neither dictionary, no
  other server, and no callback.\<close>

lemma stale_trip_local:
  assumes "px_all st i = Some s" "cached st (sv_cam s) \<noteq> Some i"
  shows "let st' = connect_failed i now st in
    px_ports st' = px_ports st \<and> px_servers st' = px_servers st \<and> px_pending st' = px_pending st \<and>
    px_died st' = px_died st \<and> (\<forall>j. j \<noteq> i \<longrightarrow> px_all st' j = px_all st j)"
  using assms by (simp add: connect_failed_def fire_on_proxy_died_def count_failure_def Let_def split: option.split)

lemma stale_trip_local_instance:
  "px_servers (connect_failed 0 (7 :: rat) (begin_start ''a'' (start_tls_proxy ''a'' 5000 no_proxies))) = []"
proof -
  let ?st = "begin_start ''a'' (start_tls_proxy ''a'' 5000 no_proxies)"
  have "px_all ?st 0 = Some \<lparr>sv_cam = ''a'', sv_port = 5000, sv_listening = False, sv_breaker = fresh_breaker\<rparr>"
    "px_servers ?st = []"
    by (simp_all add: start_tls_proxy_def begin_start_def no_proxies_def publish_def dict_set_def dict_get_def stop_tls_proxy_def
        evict_def dict_pop_def close_server_def)
  then show ?thesis using stale_trip_local [of ?st 0 _ 7] by (simp add: Let_def)
qed

text \<open>C34
  The callback is not so careful: currency is checked before the wait for the server to close. When a
  proxy has tripped and its camera is started again during that wait, the new proxy is cached and
  listening, the callback for the old one is still due, and the next step calls it, with the new proxy
  still cached, listening and untripped.\<close>

theorem late_callback:
  "let tripped = ((connect_failed 0 0) ^^ 5) (start_tls_proxy cam p no_proxies);
       restarted = start_tls_proxy cam q tripped;
       told = call_back 0 restarted
   in px_reach True tripped \<and> px_pending tripped = [0] \<and> px_died tripped = [] \<and> \<not> listens tripped 0 \<and>
      px_reach True restarted \<and> px_pending restarted = [0] \<and> px_died restarted = [] \<and>
      cached restarted cam = Some 1 \<and> listens restarted 1 \<and>
      px_step True restarted told \<and> px_died told = [0] \<and> cached told cam = Some 1 \<and> listens told 1"
proof -
  define run where "run = ((connect_failed 0 0) ^^ 5) (start_tls_proxy cam p no_proxies)"
  have "px_reach True (((connect_failed 0 0) ^^ n) (start_tls_proxy cam p no_proxies))" for n
    by (induction n) (auto intro: published_reach px_reach.step px_step.failed)
  then have reach: "px_reach True run" by (simp add: run_def)
  have e: "run = no_proxies\<lparr>px_all := [0 \<mapsto> \<lparr>sv_cam = cam, sv_port = p, sv_listening = False,
      sv_breaker = \<lparr>br_fails = 5, br_first = At 0, br_fired = True\<rparr>\<rparr>], px_next := 1, px_pending := [0]\<rparr>"
    unfolding run_def
    by (simp add: eval_nat_numeral connect_failed_def fire_on_proxy_died_def start_tls_proxy_def begin_start_def no_proxies_def publish_def
        dict_set_def dict_get_def dict_pop_def evict_def close_server_def set_breaker_def count_failure_def fresh_breaker_def
        trips_def MAX_BURST_def BURST_WINDOW_def)
  have "px_reach True (start_tls_proxy cam q run)" unfolding start_tls_proxy_def
    by (intro px_reach.step [OF _ px_step.bound] px_reach.step [OF _ px_step.start] reach)
      (simp_all add: e no_proxies_def)
  moreover have "px_step True (start_tls_proxy cam q run) (call_back 0 (start_tls_proxy cam q run))"
    by (rule px_step.died) (simp add: e start_tls_proxy_def publish_def begin_start_def no_proxies_def)
  ultimately show ?thesis
    unfolding Let_def run_def [symmetric] using reach
    by (simp add: e start_tls_proxy_def publish_def begin_start_def no_proxies_def call_back_def listens_def)
qed

end
