(* ===== verification/Rtsp.thy ===== *)
theory Rtsp
  imports TlsPipe AuthUtils
begin

section \<open>RTSP probes through the proxy\<close>

text \<open>
  \<open>rtsp_keepalive\<close>, \<open>pre_warm_rtsp\<close>, \<open>confirm_encoder_ready\<close> and \<open>_digest_auth\<close> of
  \<open>tls_proxy.py\<close>. The network is a parameter: what connecting, writing and draining, reading and
  waiting for the close gives, as a function of what happened before. The state is the list of what
  the program did: the connections it opened, the bytes it wrote, the reads, the closes and the
  sleeps. Timeouts are exceptions of the network. MD5 is a parameter on bytes.
\<close>

datatype action = Connect nat | Send bytes | Recv nat | Close | Sleep int

declare ustr_simps [simp del]

type_synonym network = "action list \<Rightarrow> action \<Rightarrow> exn + bytes"

definition act :: "network \<Rightarrow> action \<Rightarrow> (action list, bytes) io" where
  "act net a = (\<lambda>tr. (net tr a, tr @ [a]))"

definition sleep :: "int \<Rightarrow> (action list, unit) io" where
  "sleep n = (\<lambda>tr. (Inr (), tr @ [Sleep n]))"

text \<open>\<open>writer.write(text.encode())\<close> and the drain.\<close>

definition send_text :: "network \<Rightarrow> ustring \<Rightarrow> (action list, bytes) io" where
  "send_text net text = (case utf8_encode text of Inl e \<Rightarrow> raise e | Inr bs \<Rightarrow> act net (Send bs))"

definition recv_text :: "network \<Rightarrow> nat \<Rightarrow> (action list, ustring) io" where
  "recv_text net n = bind_io (act net (Recv n)) (\<lambda>bs. ret (utf8_replace bs))"

text \<open>\<open>writer.close()\<close> and waiting for it, every exception swallowed.\<close>

definition shut :: "network \<Rightarrow> (action list, unit) io" where
  "shut net = catch_io (bind_io (act net Close) (\<lambda>_. ret ())) (\<lambda>_. ret ())"

subsection \<open>Digest authentication\<close>

definition utf8_md5 :: "(bytes \<Rightarrow> string) \<Rightarrow> ustring \<Rightarrow> exn + string" where
  "utf8_md5 md5 s = (case utf8_encode s of Inl e \<Rightarrow> Inl e | Inr bs \<Rightarrow> Inr (md5 bs))"

definition uquoted :: "string \<Rightarrow> ustring \<Rightarrow> ustring" where
  "uquoted k v = ustr k @ ustr ''='' @ [34] @ v @ [34]"

definition digest_auth ::
    "(bytes \<Rightarrow> string) \<Rightarrow> ustring \<Rightarrow> ustring \<Rightarrow> string \<Rightarrow> ustring \<Rightarrow> ustring \<Rightarrow> ustring \<Rightarrow> exn + ustring" where
  "digest_auth md5 user password verb uri realm nonce =
     (case utf8_md5 md5 (user @ [58] @ realm @ [58] @ password) of
        Inl e \<Rightarrow> Inl e
      | Inr ha1 \<Rightarrow>
     (case utf8_md5 md5 (ustr verb @ [58] @ uri) of
        Inl e \<Rightarrow> Inl e
      | Inr ha2 \<Rightarrow>
     (case utf8_md5 md5 (ustr ha1 @ [58] @ nonce @ [58] @ ustr ha2) of
        Inl e \<Rightarrow> Inl e
      | Inr resp \<Rightarrow>
          Inr (ustr ''Digest '' @ join_with [44]
            [uquoted ''username'' user, uquoted ''realm'' realm, uquoted ''nonce'' nonce, uquoted ''uri'' uri,
             uquoted ''response'' (ustr resp)]))))"

text \<open>\<open>nonce="([^"]+)"\<close> and \<open>realm="([^"]+)"\<close>\<close>

definition quoted_field :: "string \<Rightarrow> nat rx" where
  "quoted_field k = r_field (r_lit (ustr k @ [61, 34])) (\<lambda>u. u \<noteq> 34) (r_lit [34])"

definition challenge_of :: "ustring \<Rightarrow> (ustring \<times> ustring) option" where
  "challenge_of resp =
     (case (rx_group (quoted_field ''nonce'') 1 resp, rx_group (quoted_field ''realm'') 1 resp) of
        (Some nonce, Some realm) \<Rightarrow> Some (nonce, realm)
      | _ \<Rightarrow> None)"

definition says_ok :: "ustring \<Rightarrow> bool" where
  "says_ok resp \<longleftrightarrow> contains (ustr ''200 OK'') resp"

subsection \<open>Requests\<close>

definition crlf :: ustring where
  "crlf = [13, 10]"

definition tunnel_uri :: "nat \<Rightarrow> string" where
  "tunnel_uri port = ''rtsp://127.0.0.1:'' @ nat_str port @ ''/rtsp_tunnel''"

definition describe_uri :: "nat \<Rightarrow> int \<Rightarrow> string" where
  "describe_uri port dur = tunnel_uri port @ ''?inst=1&enableaudio=1&fmtp=1&maxSessionDuration='' @ int_str dur"

definition rtsp_request :: "string \<Rightarrow> string \<Rightarrow> ustring list \<Rightarrow> ustring" where
  "rtsp_request verb uri lines =
     ustr verb @ ustr '' '' @ ustr uri @ ustr '' RTSP/1.0'' @ crlf @ concat (map (\<lambda>l. l @ crlf) lines) @ crlf"

definition auth_line :: "ustring \<Rightarrow> ustring" where
  "auth_line auth = ustr ''Authorization: '' @ auth"

subsection \<open>rtsp_keepalive\<close>

text \<open>Both requests, up to the point where each path closes the connection and returns.\<close>

definition options ::
    "network \<Rightarrow> (bytes \<Rightarrow> string) \<Rightarrow> nat \<Rightarrow> ustring \<Rightarrow> ustring \<Rightarrow> (action list, bool) io" where
  "options net md5 port user password =
     (let uri = tunnel_uri port in
      bind_io (send_text net (rtsp_request ''OPTIONS'' uri [ustr ''CSeq: 1''])) (\<lambda>_.
      bind_io (recv_text net 4096) (\<lambda>resp1.
        case challenge_of resp1 of
          None \<Rightarrow> ret (says_ok resp1)
        | Some (nonce, realm) \<Rightarrow>
            bind_io (lift (digest_auth md5 user password ''OPTIONS'' (ustr uri) realm nonce)) (\<lambda>auth.
            bind_io (send_text net (rtsp_request ''OPTIONS'' uri [ustr ''CSeq: 2'', auth_line auth])) (\<lambda>_.
            bind_io (recv_text net 4096) (\<lambda>resp2. ret (says_ok resp2)))))))"

definition rtsp_keepalive ::
    "network \<Rightarrow> (bytes \<Rightarrow> string) \<Rightarrow> nat \<Rightarrow> ustring \<Rightarrow> ustring \<Rightarrow> (action list, bool) io" where
  "rtsp_keepalive net md5 port user password =
     catch_io
       (bind_io (act net (Connect port)) (\<lambda>_.
          catch_io
            (bind_io (options net md5 port user password) (\<lambda>ok. bind_io (shut net) (\<lambda>_. ret ok)))
            (\<lambda>_. bind_io (shut net) (\<lambda>_. ret False))))
       (\<lambda>_. ret False)"

subsection \<open>DESCRIBE: the part the two probes share, pre_warm_rtsp and confirm_encoder_ready\<close>

text \<open>Both requests of a DESCRIBE; no result when the first answer has no challenge.\<close>

definition describe ::
    "network \<Rightarrow> (bytes \<Rightarrow> string) \<Rightarrow> nat \<Rightarrow> ustring \<Rightarrow> ustring \<Rightarrow> int \<Rightarrow> (action list, bool option) io" where
  "describe net md5 port user password dur =
     (let uri = describe_uri port dur in
      bind_io (send_text net (rtsp_request ''DESCRIBE'' uri [ustr ''CSeq: 1'', ustr ''Accept: application/sdp''])) (\<lambda>_.
      bind_io (recv_text net 4096) (\<lambda>resp1.
        case challenge_of resp1 of
          None \<Rightarrow> ret None
        | Some (nonce, realm) \<Rightarrow>
            bind_io (lift (digest_auth md5 user password ''DESCRIBE'' (ustr uri) realm nonce)) (\<lambda>auth.
            bind_io (send_text net (rtsp_request ''DESCRIBE'' uri
              [ustr ''CSeq: 2'', ustr ''Accept: application/sdp'', auth_line auth])) (\<lambda>_.
            bind_io (recv_text net 8192) (\<lambda>resp2. ret (Some (says_ok resp2))))))))"

text \<open>
  One round of \<open>pre_warm_rtsp\<close>: a result, or none when there was no challenge or an exception. The
  loop then sleeps and goes round again while attempts are left.
\<close>

definition pre_warm_attempt ::
    "network \<Rightarrow> (bytes \<Rightarrow> string) \<Rightarrow> nat \<Rightarrow> ustring \<Rightarrow> ustring \<Rightarrow> int \<Rightarrow> int \<Rightarrow> (action list, bool option) io" where
  "pre_warm_attempt net md5 port user password dur post_success_wait =
     catch_io
       (bind_io (act net (Connect port)) (\<lambda>_.
          catch_io
            (bind_io (describe net md5 port user password dur) (\<lambda>r.
             bind_io (shut net) (\<lambda>_.
               case r of
                 None \<Rightarrow> ret None
               | Some ok \<Rightarrow> bind_io (sleep post_success_wait) (\<lambda>_. ret (Some ok)))))
            (\<lambda>_. bind_io (shut net) (\<lambda>_. ret None))))
       (\<lambda>_. ret None)"

fun pre_warm_loop ::
    "network \<Rightarrow> (bytes \<Rightarrow> string) \<Rightarrow> nat \<Rightarrow> ustring \<Rightarrow> ustring \<Rightarrow> int \<Rightarrow> int \<Rightarrow> int \<Rightarrow> nat \<Rightarrow> (action list, bool) io" where
  "pre_warm_loop net md5 port user password dur retry_wait post 0 = ret False"
| "pre_warm_loop net md5 port user password dur retry_wait post (Suc left) =
     bind_io (pre_warm_attempt net md5 port user password dur post) (\<lambda>r.
       case r of
         Some ok \<Rightarrow> ret ok
       | None \<Rightarrow>
           if left = 0 then ret False
           else bind_io (sleep retry_wait) (\<lambda>_. pre_warm_loop net md5 port user password dur retry_wait post left))"

definition pre_warm_rtsp where
  "pre_warm_rtsp net md5 port user password max_attempts retry_wait post_success_wait max_session_duration =
     pre_warm_loop net md5 port user password max_session_duration retry_wait post_success_wait (nat max_attempts)"

definition confirm_encoder_ready where
  "confirm_encoder_ready net md5 port user password max_session_duration =
     catch_io
       (bind_io (act net (Connect port)) (\<lambda>_.
        bind_io (catch_io (describe net md5 port user password max_session_duration) (\<lambda>_. ret None)) (\<lambda>r.
        bind_io (shut net) (\<lambda>_. ret (r = Some True)))))
       (\<lambda>_. ret False)"

subsection \<open>What a run does\<close>

definition talk :: "action \<Rightarrow> bool" where
  "talk a \<longleftrightarrow> (\<exists>bs. a = Send bs) \<or> (\<exists>n. a = Recv n)"

lemma shut_run [simp]: "shut net tr = (Inr (), tr @ [Close])"
  by (simp add: shut_def act_def io_defs split: sum.split)

lemma sleep_run [simp]: "sleep n tr = (Inr (), tr @ [Sleep n])"
  by (simp add: sleep_def)

text \<open>\<open>talks m\<close>: whatever the outcome, \<open>m\<close> only writes and reads.\<close>

definition talks :: "(action list, 'a) io \<Rightarrow> bool" where
  "talks m \<longleftrightarrow> (\<forall>tr. \<exists>new. snd (m tr) = tr @ new \<and> list_all talk new)"

lemma talksI: "(\<And>tr. \<exists>new. snd (m tr) = tr @ new \<and> list_all talk new) \<Longrightarrow> talks m"
  by (simp add: talks_def)

lemma talks_ret [intro!]: "talks (ret x)" and talks_raise [intro!]: "talks (raise e)" and talks_lift [intro!]: "talks (lift r)"
  by (simp_all add: talks_def io_defs)

lemma talks_act: "talk a \<Longrightarrow> talks (act net a)"
  by (simp add: talks_def act_def)

lemma talks_bind [intro]:
  assumes "talks m" "\<And>x. talks (f x)"
  shows "talks (bind_io m f)"
proof (rule talksI)
  fix tr
  obtain r tr1 where m: "m tr = (r, tr1)" by fastforce
  with assms(1) obtain new where new: "tr1 = tr @ new" "list_all talk new" unfolding talks_def by (metis snd_conv)
  show "\<exists>new. snd (bind_io m f tr) = tr @ new \<and> list_all talk new"
  proof (cases r)
    case (Inl e)
    with m new show ?thesis by (simp add: bind_io_Inl)
  next
    case (Inr x)
    from assms(2) [of x] obtain new' where "snd (f x tr1) = tr1 @ new'" "list_all talk new'"
      unfolding talks_def by blast
    with m new Inr show ?thesis by (auto simp: bind_io_Inr)
  qed
qed

lemma talks_send [intro!]: "talks (send_text net s)"
  by (auto simp: send_text_def talk_def intro!: talks_act split: sum.split)

lemma talks_recv [intro!]: "talks (recv_text net n)"
  by (auto simp: recv_text_def talk_def intro!: talks_act)

lemma talks_option: "talks m \<Longrightarrow> (\<And>a b. talks (f a b)) \<Longrightarrow> talks (case x of None \<Rightarrow> m | Some (a, b) \<Rightarrow> f a b)"
  by (simp split: option.split)

lemmas talks_rules = talks_bind talks_option talks_send talks_recv talks_lift talks_ret

lemma talks_describe: "talks (describe net md5 port user password dur)"
  unfolding describe_def Let_def by (intro talks_rules)

lemma talks_options: "talks (options net md5 port user password)"
  unfolding options_def Let_def by (intro talks_rules)

lemma talks_run:
  assumes "talks m"
  obtains r new where "m tr = (r, tr @ new)" "list_all talk new"
  using assms unfolding talks_def by (metis prod.collapse)

lemma describe_ok:
  assumes "describe net md5 port user password dur tr = (Inr (Some ok), tr')"
  shows "\<exists>past bs. tr' = past @ [Recv 8192] \<and> net past (Recv 8192) = Inr bs \<and>
    ok = contains (ustr ''200 OK'') (utf8_replace bs)"
  using assms
  by (auto simp: describe_def Let_def bind_io_Inr_iff recv_text_def act_def ret_def lift_def says_ok_def split: option.splits)

lemma options_ok:
  assumes "options net md5 port user password tr = (Inr True, tr')"
  shows "\<exists>past bs. tr' = past @ [Recv 4096] \<and> net past (Recv 4096) = Inr bs \<and> says_ok (utf8_replace bs)"
  using assms
  by (auto simp: options_def Let_def bind_io_Inr_iff recv_text_def act_def ret_def lift_def split: option.splits)

subsection \<open>Closed forms\<close>

lemma keepalive_run:
  "rtsp_keepalive net md5 port user password tr =
     (case net tr (Connect port) of
        Inl e \<Rightarrow> (Inr False, tr @ [Connect port])
      | Inr _ \<Rightarrow>
          let (r, tr1) = options net md5 port user password (tr @ [Connect port]) in
          (Inr (r = Inr True), tr1 @ [Close]))"
  by (auto simp: rtsp_keepalive_def act_def bind_io_def catch_io_def ret_def split: sum.split prod.split)

lemma pre_warm_attempt_run:
  "pre_warm_attempt net md5 port user password dur post tr =
     (case net tr (Connect port) of
        Inl e \<Rightarrow> (Inr None, tr @ [Connect port])
      | Inr _ \<Rightarrow>
          let (r, tr1) = describe net md5 port user password dur (tr @ [Connect port]) in
          (case r of
             Inr (Some ok) \<Rightarrow> (Inr (Some ok), tr1 @ [Close, Sleep post])
           | _ \<Rightarrow> (Inr None, tr1 @ [Close])))"
  by (auto simp: pre_warm_attempt_def act_def bind_io_def catch_io_def ret_def split: sum.split prod.split option.split)

lemma confirm_run:
  "confirm_encoder_ready net md5 port user password dur tr =
     (case net tr (Connect port) of
        Inl e \<Rightarrow> (Inr False, tr @ [Connect port])
      | Inr _ \<Rightarrow>
          let (r, tr1) = describe net md5 port user password dur (tr @ [Connect port]) in
          (Inr (r = Inr (Some True)), tr1 @ [Close]))"
  by (auto simp: confirm_encoder_ready_def act_def bind_io_def catch_io_def ret_def split: sum.split prod.split option.split)

subsection \<open>Open connections\<close>

primrec opens_rev :: "network \<Rightarrow> action list \<Rightarrow> int" where
  "opens_rev net [] = 0"
| "opens_rev net (a # past) = opens_rev net past +
     (case a of Connect p \<Rightarrow> (if isl (net (rev past) a) then 0 else 1) | Close \<Rightarrow> - 1 | _ \<Rightarrow> 0)"

definition open_connections :: "network \<Rightarrow> action list \<Rightarrow> int" where
  "open_connections net tr = opens_rev net (rev tr)"

lemma open_snoc [simp]:
  "open_connections net (tr @ [Connect p]) = open_connections net tr + (if isl (net tr (Connect p)) then 0 else 1)"
  "open_connections net (tr @ [Close]) = open_connections net tr - 1"
  "open_connections net (tr @ [Sleep n]) = open_connections net tr"
  by (simp_all add: open_connections_def)

lemma open_talk: "list_all talk new \<Longrightarrow> open_connections net (tr @ new) = open_connections net tr"
proof (induction new rule: rev_induct)
  case (snoc a new)
  then show ?case by (auto simp: open_connections_def talk_def)
qed simp

text \<open>A session: connecting, some talk, closing.\<close>

lemma session_closes:
  assumes "\<not> isl (net tr (Connect port))" "list_all talk new"
  shows "open_connections net (tr @ Connect port # new @ [Close]) = open_connections net tr"
proof -
  have "open_connections net (((tr @ [Connect port]) @ new) @ [Close]) = open_connections net tr"
    using assms by (simp only: open_snoc open_talk) simp
  then show ?thesis by simp
qed

lemma probe_closes:
  assumes "talks m"
    and "\<And>tr. f tr = (case net tr (Connect port) of
        Inl e \<Rightarrow> (Inr False, tr @ [Connect port])
      | Inr _ \<Rightarrow> let (r, tr1) = m (tr @ [Connect port]) in (Inr (r = good), tr1 @ [Close]))"
  shows "\<exists>b. fst (f tr) = Inr b \<and> open_connections net (snd (f tr)) = open_connections net tr"
proof (cases "net tr (Connect port)")
  case (Inl e)
  then show ?thesis by (simp add: assms(2)) blast
next
  case (Inr x)
  obtain r new where "m (tr @ [Connect port]) = (r, (tr @ [Connect port]) @ new)" "list_all talk new"
    by (rule talks_run [OF assms(1)])
  with Inr show ?thesis by (simp add: assms(2) session_closes)
qed

lemma pre_warm_attempt_closes:
  "\<exists>r. fst (pre_warm_attempt net md5 port user password dur post tr) = Inr r \<and>
     open_connections net (snd (pre_warm_attempt net md5 port user password dur post tr)) = open_connections net tr"
proof (cases "net tr (Connect port)")
  case (Inl e)
  then show ?thesis by (simp add: pre_warm_attempt_run)
next
  case (Inr x)
  obtain r new where d: "describe net md5 port user password dur (tr @ [Connect port]) = (r, (tr @ [Connect port]) @ new)"
    "list_all talk new" by (rule talks_run [OF talks_describe])
  then have c: "open_connections net (tr @ Connect port # new @ [Close]) = open_connections net tr"
    using Inr by (intro session_closes) simp_all
  moreover have "open_connections net (tr @ Connect port # new @ [Close, Sleep post]) = open_connections net tr"
    using open_snoc(3) [of net "tr @ Connect port # new @ [Close]" post] c by simp
  ultimately show ?thesis using Inr d by (simp add: pre_warm_attempt_run split: sum.split option.split)
qed

lemma pre_warm_loop_closes:
  "\<exists>b. fst (pre_warm_loop net md5 port user password dur rw post n tr) = Inr b \<and>
     open_connections net (snd (pre_warm_loop net md5 port user password dur rw post n tr)) = open_connections net tr"
proof (induction n arbitrary: tr)
  case 0
  show ?case by (simp add: ret_def) blast
next
  case (Suc n)
  obtain r tr1 where a: "pre_warm_attempt net md5 port user password dur post tr = (Inr r, tr1)"
    "open_connections net tr1 = open_connections net tr"
    using pre_warm_attempt_closes [of net md5 port user password dur post tr]
    by (cases "pre_warm_attempt net md5 port user password dur post tr") auto
  with Suc [of "tr1 @ [Sleep rw]"] show ?case
    by (auto simp: bind_io_Inr ret_def split: option.split)
qed

subsection \<open>Properties\<close>

text \<open>C18
  No probe leaks a connection and none raises: whatever the network does at each step, the keepalive,
  the pre-warm with any number of attempts and the readiness check return a truth value and have
  closed every connection they opened.\<close>

theorem probes_close:
  "list_all (\<lambda>f. (\<exists>b. fst (f tr) = Inr b) \<and> open_connections net (snd (f tr)) = open_connections net tr)
     [rtsp_keepalive net md5 port user password,
      pre_warm_rtsp net md5 port user password max_attempts retry_wait post dur,
      confirm_encoder_ready net md5 port user password dur]"
proof -
  have "\<exists>b. fst (rtsp_keepalive net md5 port user password tr) = Inr b \<and>
      open_connections net (snd (rtsp_keepalive net md5 port user password tr)) = open_connections net tr"
    by (rule probe_closes [OF talks_options]) (rule keepalive_run)
  moreover have "\<exists>b. fst (confirm_encoder_ready net md5 port user password dur tr) = Inr b \<and>
      open_connections net (snd (confirm_encoder_ready net md5 port user password dur tr)) = open_connections net tr"
    by (rule probe_closes [OF talks_describe]) (rule confirm_run)
  ultimately show ?thesis
    using pre_warm_loop_closes [of net md5 port user password dur retry_wait post "nat max_attempts" tr]
    by (auto simp: pre_warm_rtsp_def)
qed

text \<open>The connections and the sleeps of a run, in order.\<close>

definition paces :: "action list \<Rightarrow> action list" where
  "paces tr = filter (\<lambda>a. (\<exists>p. a = Connect p) \<or> (\<exists>n. a = Sleep n)) tr"

lemma paces_simps [simp]:
  "paces [] = []" "paces (Connect p # tr) = Connect p # paces tr" "paces (Sleep n # tr) = Sleep n # paces tr"
  "paces (Close # tr) = paces tr" "paces (xs @ ys) = paces xs @ paces ys"
  by (simp_all add: paces_def)

lemma paces_talk: "list_all talk new \<Longrightarrow> paces new = []"
  by (induction new) (auto simp: talk_def paces_def)

definition answered :: "network \<Rightarrow> int \<Rightarrow> action list \<Rightarrow> bool \<Rightarrow> bool" where
  "answered net post tr ok \<longleftrightarrow>
     (\<exists>past bs. tr = past @ [Recv 8192, Close, Sleep post] \<and> net past (Recv 8192) = Inr bs \<and>
        ok = contains (ustr ''200 OK'') (utf8_replace bs))"

lemma pre_warm_attempt_shape:
  obtains (failed) new where "pre_warm_attempt net md5 port user password dur post tr = (Inr None, tr @ new)"
      "paces new = [Connect port]"
  | (completed) new ok where "pre_warm_attempt net md5 port user password dur post tr = (Inr (Some ok), tr @ new)"
      "paces new = [Connect port, Sleep post]" "answered net post (tr @ new) ok"
proof -
  obtain r new where d: "describe net md5 port user password dur (tr @ [Connect port]) = (r, (tr @ [Connect port]) @ new)"
    "list_all talk new" by (rule talks_run [OF talks_describe])
  show thesis
  proof (cases "net tr (Connect port)")
    case (Inl e)
    then show thesis by (intro failed [of "[Connect port]"]) (simp_all add: pre_warm_attempt_run)
  next
    case (Inr x)
    show thesis
    proof (cases "\<exists>ok. r = Inr (Some ok)")
      case True
      then obtain ok where r: "r = Inr (Some ok)" by blast
      with d obtain past bs where p: "(tr @ [Connect port]) @ new = past @ [Recv 8192]" "net past (Recv 8192) = Inr bs"
        "ok = contains (ustr ''200 OK'') (utf8_replace bs)" using describe_ok by metis
      then have "tr @ Connect port # new @ [Close, Sleep post] = past @ [Recv 8192, Close, Sleep post]" by simp
      with p have "answered net post (tr @ Connect port # new @ [Close, Sleep post]) ok" unfolding answered_def by blast
      with r Inr d show thesis
        by (intro completed [of ok "Connect port # new @ [Close, Sleep post]"]) (simp_all add: pre_warm_attempt_run paces_talk)
    next
      case False
      with Inr d show thesis
        by (intro failed [of "Connect port # new @ [Close]"]) (auto simp: pre_warm_attempt_run paces_talk split: sum.split option.split)
    qed
  qed
qed

lemma pre_warm_loop_shape:
  "\<exists>new b. pre_warm_loop net md5 port user password dur rw post n tr = (Inr b, tr @ new) \<and>
     ((\<exists>k < n. paces new = concat (replicate k [Connect port, Sleep rw]) @ [Connect port, Sleep post] \<and>
        answered net post (tr @ new) b) \<or>
      b = False \<and> paces new = butlast (concat (replicate n [Connect port, Sleep rw])))"
proof (induction n arbitrary: tr)
  case 0
  show ?case by (intro exI [of _ "[]"] exI [of _ False]) (simp add: ret_def)
next
  case (Suc n)
  let ?loop = "pre_warm_loop net md5 port user password dur rw post"
  show ?case
  proof (cases rule: pre_warm_attempt_shape [of net md5 port user password dur post tr, case_names failed completed])
    case (failed new)
    show ?thesis
    proof (cases "n = 0")
      case True
      with failed show ?thesis by (intro exI [of _ new] exI [of _ False]) (simp add: bind_io_Inr ret_def)
    next
      case False
      let ?tr = "tr @ new @ [Sleep rw]"
      from Suc [of ?tr] obtain new' b where ih: "?loop n ?tr = (Inr b, ?tr @ new')"
        "(\<exists>k < n. paces new' = concat (replicate k [Connect port, Sleep rw]) @ [Connect port, Sleep post] \<and>
            answered net post (?tr @ new') b) \<or>
         b = False \<and> paces new' = butlast (concat (replicate n [Connect port, Sleep rw]))" by blast
      have run: "?loop (Suc n) tr = (Inr b, tr @ (new @ Sleep rw # new'))"
        using failed False ih(1) by (simp add: bind_io_Inr)
      have p: "paces (new @ Sleep rw # new') = [Connect port, Sleep rw] @ paces new'" using failed by simp
      from ih(2) show ?thesis
      proof
        assume "\<exists>k < n. paces new' = concat (replicate k [Connect port, Sleep rw]) @ [Connect port, Sleep post] \<and>
            answered net post (?tr @ new') b"
        then obtain k where "k < n" "paces new' = concat (replicate k [Connect port, Sleep rw]) @ [Connect port, Sleep post]"
          "answered net post (?tr @ new') b" by blast
        with run p show ?thesis
          by (intro exI [of _ "new @ Sleep rw # new'"] exI [of _ b] conjI disjI1 exI [of _ "Suc k"]) simp_all
      next
        assume "b = False \<and> paces new' = butlast (concat (replicate n [Connect port, Sleep rw]))"
        moreover have "concat (replicate n [Connect port, Sleep rw]) \<noteq> []" using False by simp
        ultimately show ?thesis using run p
          by (intro exI [of _ "new @ Sleep rw # new'"] exI [of _ b] conjI disjI2) (simp_all add: butlast_append)
      qed
    qed
  next
    case (completed new ok)
    then show ?thesis by (intro exI [of _ new] exI [of _ ok]) (auto simp: bind_io_Inr ret_def intro!: exI [of _ 0])
  qed
qed

text \<open>C19
  The pre-warm returns a truth value, and its connections and sleeps are these, whatever the network
  does. Either some attempt, the first or after k failed ones each followed by a sleep of
  \<open>retry_wait\<close>, completes the authenticated DESCRIBE: then the last thing read before closing was its
  answer, the result says whether that contains "200 OK", and one sleep of \<open>post_success_wait\<close>
  follows. Or all \<open>max_attempts\<close> attempts fail, with a sleep of \<open>retry_wait\<close> between any two and none
  after the last, and the result is False.\<close>

theorem pre_warm_bounded:
  "\<exists>new b. pre_warm_rtsp net md5 port user password max_attempts retry_wait post dur tr = (Inr b, tr @ new) \<and>
     ((\<exists>k past bs. k < nat max_attempts \<and>
         paces new = concat (replicate k [Connect port, Sleep retry_wait]) @ [Connect port, Sleep post] \<and>
         tr @ new = past @ [Recv 8192, Close, Sleep post] \<and> net past (Recv 8192) = Inr bs \<and>
         b = contains (ustr ''200 OK'') (utf8_replace bs)) \<or>
      b = False \<and> paces new = butlast (concat (replicate (nat max_attempts) [Connect port, Sleep retry_wait])))"
  using pre_warm_loop_shape [of net md5 port user password dur retry_wait post "nat max_attempts" tr]
  unfolding pre_warm_rtsp_def answered_def by blast

definition sample_401 :: string where
  "sample_401 = ''nonce='' @ [CHR 0x22] @ ''a'' @ [CHR 0x22] @ ''realm='' @ [CHR 0x22] @ ''b'' @ [CHR 0x22]"

definition sample_net :: network where
  "sample_net = (\<lambda>tr a. case a of
     Recv n \<Rightarrow> Inr (b_lit (if n = 8192 then ''RTSP/1.0 200 OK'' else sample_401))
   | _ \<Rightarrow> Inr [])"

lemma sample_answers:
  "challenge_of (utf8_replace (b_lit sample_401)) =
     Some (ustr ''a'', ustr ''b'')"
  "says_ok (utf8_replace (b_lit ''RTSP/1.0 200 OK''))"
proof -
  have "ascii ''RTSP/1.0 200 OK''" "ascii sample_401" by code_simp+
  note a = this [THEN utf8_replace_b_lit]
  show "challenge_of (utf8_replace (b_lit sample_401)) =
     Some (ustr ''a'', ustr ''b'')" unfolding a by code_simp
  show "says_ok (utf8_replace (b_lit ''RTSP/1.0 200 OK''))" unfolding a by code_simp
qed

lemma digest_auth_scalar:
  assumes "list_all scalar user" "list_all scalar password" "list_all scalar realm" "list_all scalar nonce"
  shows "\<exists>auth. digest_auth md5 user password verb (ustr uri) realm nonce = Inr auth \<and> list_all scalar auth"
proof -
  have "scalar 34" "scalar 44" "scalar 58" by (simp_all add: scalar_def)
  with assms show ?thesis
    by (simp add: digest_auth_def utf8_md5_def utf8_encode_scalar uquoted_def)
qed

lemma send_scalar: "list_all scalar s \<Longrightarrow> send_text sample_net s tr = (Inr [], tr @ [Send (utf8 s)])"
  by (simp add: send_text_def utf8_encode_scalar act_def sample_net_def)

lemma request_scalar: "list_all (list_all scalar) lines \<Longrightarrow> list_all scalar (rtsp_request verb uri lines)"
proof -
  have "list_all scalar crlf" by (simp add: crlf_def scalar_def)
  moreover assume "list_all (list_all scalar) lines"
  then have "list_all scalar (concat (map (\<lambda>l. l @ crlf) lines))"
    using calculation by (induction lines) simp_all
  ultimately show ?thesis by (simp add: rtsp_request_def)
qed

lemma sample_describe:
  assumes "list_all scalar user" "list_all scalar password"
  shows "\<exists>tr'. describe sample_net md5 port user password dur tr = (Inr (Some True), tr')"
proof -
  obtain auth where a: "digest_auth md5 user password ''DESCRIBE'' (ustr (describe_uri port dur)) (ustr ''b'') (ustr ''a'') = Inr auth"
    "list_all scalar auth" using digest_auth_scalar [OF assms scalar_ustr scalar_ustr] by blast
  have r1: "recv_text sample_net 4096 tr = (Inr (utf8_replace (b_lit sample_401)), tr @ [Recv 4096])"
    and r2: "recv_text sample_net 8192 tr = (Inr (utf8_replace (b_lit ''RTSP/1.0 200 OK'')), tr @ [Recv 8192])" for tr
    by (simp_all add: recv_text_def act_def sample_net_def bind_io_def ret_def)
  have s: "send_text sample_net (rtsp_request verb uri lines) tr = (Inr [], tr @ [Send (utf8 (rtsp_request verb uri lines))])"
    if "list_all (list_all scalar) lines" for verb uri lines tr
    by (rule send_scalar [OF request_scalar [OF that]])
  show ?thesis
    using a by (simp add: describe_def Let_def bind_io_def s r1 r2 sample_answers lift_def ret_def auth_line_def)
qed

theorem pre_warm_bounded_witness:
  "paces (snd (pre_warm_rtsp sample_net (\<lambda>_. ''0'') 5000 (ustr ''u'') (ustr ''p'') 1 4 3 60 [])) = [Connect 5000, Sleep 3]"
proof -
  obtain tr' where "describe sample_net (\<lambda>_. ''0'') 5000 (ustr ''u'') (ustr ''p'') 60 [Connect 5000] = (Inr (Some True), tr')"
    using sample_describe [OF scalar_ustr scalar_ustr] by blast
  then have "fst (pre_warm_rtsp sample_net (\<lambda>_. ''0'') 5000 (ustr ''u'') (ustr ''p'') 1 4 3 60 []) = Inr True"
    by (simp add: pre_warm_rtsp_def bind_io_def pre_warm_attempt_run sample_net_def [of] ret_def)
  with pre_warm_bounded [of sample_net "\<lambda>_. ''0''" 5000 "ustr ''u''" "ustr ''p''" 1 4 3 60 "[]"] show ?thesis by auto
qed

text \<open>C35
  The readiness check is the pre-warm with a single attempt: the same answer and, but for the final
  pause after a completed DESCRIBE, the same actions, on every network.\<close>

theorem confirm_is_one_attempt:
  "fst (confirm_encoder_ready net md5 port user password dur tr) =
     fst (pre_warm_rtsp net md5 port user password 1 retry_wait post dur tr) \<and>
   snd (pre_warm_rtsp net md5 port user password 1 retry_wait post dur tr) \<in>
     {snd (confirm_encoder_ready net md5 port user password dur tr),
      snd (confirm_encoder_ready net md5 port user password dur tr) @ [Sleep post]}"
proof -
  obtain r tr1 where d: "describe net md5 port user password dur (tr @ [Connect port]) = (r, tr1)" by fastforce
  have "pre_warm_rtsp net md5 port user password 1 retry_wait post dur tr =
      bind_io (pre_warm_attempt net md5 port user password dur post) (\<lambda>r. ret (r = Some True)) tr"
    by (auto simp: pre_warm_rtsp_def io_defs split: prod.split sum.split option.split)
  then show ?thesis
    using d by (auto simp: confirm_run pre_warm_attempt_run bind_io_def ret_def split: sum.split option.split)
qed

text \<open>C36
  The RTSP header is the fallback of the HTTP one, for every verb in upper case (the client sends
  OPTIONS and DESCRIBE): for user, realm, password and nonce of 8-bit characters its response is what
  the HTTP Digest code computes for that verb with MD5 and no quality of protection, over the same
  hash, and the other directives are the arguments as they are.\<close>

theorem rtsp_digest_is_http_digest:
  "digest_auth md5 (ustr user) (ustr password) (upper verb) (ustr uri) (ustr realm) (ustr nonce) =
    Inr (ustr (''Digest '' @ join_with '','' [quoted ''username'' user, quoted ''realm'' realm, quoted ''nonce'' nonce,
      quoted ''uri'' uri, quoted ''response''
        (digest_response \<lparr>h_md5 = (\<lambda>s. md5 (utf8 (ustr s))), h_sha256 = sha\<rparr> ''MD5'' user realm password nonce cnonce []
          verb uri)]))"
proof -
  have h: "utf8_md5 md5 (ustr s) = Inr (md5 (utf8 (ustr s)))" for s
    by (simp add: utf8_md5_def utf8_encode_scalar)
  have j: "ustr a @ [58] @ ustr b = ustr (a @ '':'' @ b)" "ustr a @ [58] @ ustr b @ [58] @ ustr c = ustr (a @ '':'' @ b @ '':'' @ c)"
    "uquoted k (ustr v) = ustr (quoted k v)" for a b c k v
    by (simp_all add: ustr_def code_def uquoted_def quoted_def)
  have cm: "join_with [44] [ustr a, ustr b, ustr c, ustr d, ustr e] = ustr (join_with '','' [a, b, c, d, e])" for a b c d e
    by (simp add: ustr_def code_def)
  have "\<not> is_sess ''MD5''" "\<not> starts_with ''SHA-256'' ''MD5''" by (simp_all add: is_sess_def starts_with_def)
  then have r: "digest_response \<lparr>h_md5 = (\<lambda>s. md5 (utf8 (ustr s))), h_sha256 = sha\<rparr> ''MD5'' user realm password nonce cnonce []
      verb uri =
    md5 (utf8 (ustr (md5 (utf8 (ustr (user @ '':'' @ realm @ '':'' @ password))) @ '':'' @ nonce @ '':'' @
      md5 (utf8 (ustr (upper verb @ '':'' @ uri))))))"
    by (simp add: digest_response_def digest_hash_def Let_def colon_join_def)
  show ?thesis
    unfolding digest_auth_def j h sum.case r cm ustr_append [symmetric] by (rule refl)
qed

end
