(* ===== verification/MiniNvr.thy ===== *)
theory MiniNvr
  imports Bytes Regex Complex_Main
begin

section \<open>Mini-NVR: ffmpeg arguments and the pre-roll ring\<close>

text \<open>
  \<open>mini_nvr.py\<close>: the argument vectors for ffmpeg, the pre-roll cache directory as a state (the
  entries \<open>os.listdir\<close> gives, each with what \<open>isfile\<close> and \<open>stat\<close> say of it), its listing and
  pruning, and the ffprobe check. Which unlinks the file system refuses is a parameter, and so is
  what the ffprobe process does. Modification times are rationals.
\<close>

definition DEFAULT_SEGMENT_SECONDS :: int where
  "DEFAULT_SEGMENT_SECONDS = 300"

definition PREROLL_SEGMENT_SECONDS :: int where
  "PREROLL_SEGMENT_SECONDS = 10"

definition PREROLL_MIN_SIZE_BYTES :: int where
  "PREROLL_MIN_SIZE_BYTES = 1024"

subsection \<open>Argument vectors\<close>

definition inst_rx :: "char rx" where
  "inst_rx = RSeq (r_lit ''inst='') (r_plus (RChr is_digit))"

definition apply_quality :: "string \<Rightarrow> string \<Rightarrow> string" where
  "apply_quality rtsp_url quality =
     (if quality \<noteq> ''low'' then rtsp_url
      else if contains ''inst='' rtsp_url then rx_sub inst_rx (\<lambda>_. ''inst=4'') [] rtsp_url
      else rtsp_url @ (if CHR ''?'' \<in> set rtsp_url then ''&'' else ''?'') @ ''inst=4'')"

definition build_ffmpeg_args :: "string \<Rightarrow> string \<Rightarrow> int \<Rightarrow> string \<Rightarrow> string list" where
  "build_ffmpeg_args rtsp_url segment_pattern segment_seconds quality =
     [''ffmpeg'', ''-hide_banner'', ''-nostdin'', ''-loglevel'', ''warning'', ''-rtsp_transport'', ''tcp'',
      ''-analyzeduration'', ''10M'', ''-probesize'', ''10M'', ''-i'', apply_quality rtsp_url quality,
      ''-map'', ''0'', ''-c'', ''copy'', ''-f'', ''segment'', ''-segment_time'', int_str segment_seconds,
      ''-segment_format'', ''mp4'', ''-segment_atclocktime'', ''1'', ''-reset_timestamps'', ''1'',
      ''-strftime'', ''1'', ''-strftime_mkdir'', ''1'', ''-movflags'', ''+faststart'', segment_pattern]"

definition build_preroll_ffmpeg_args :: "string \<Rightarrow> string \<Rightarrow> int \<Rightarrow> string \<Rightarrow> string list" where
  "build_preroll_ffmpeg_args rtsp_url pattern segment_seconds quality =
     [''ffmpeg'', ''-hide_banner'', ''-nostdin'', ''-loglevel'', ''warning'', ''-rtsp_transport'', ''tcp'',
      ''-analyzeduration'', ''10M'', ''-probesize'', ''10M'', ''-i'', apply_quality rtsp_url quality,
      ''-map'', ''0'', ''-c'', ''copy'', ''-f'', ''segment'', ''-segment_time'', int_str segment_seconds,
      ''-segment_format'', ''mp4'', ''-reset_timestamps'', ''1'', ''-strftime'', ''1'',
      ''-movflags'', ''+faststart'', pattern]"

definition create_motion_clip_args :: "string \<Rightarrow> string list" where
  "create_motion_clip_args output_path =
     [''ffmpeg'', ''-hide_banner'', ''-nostdin'', ''-loglevel'', ''warning'', ''-f'', ''concat'', ''-safe'', ''0'',
      ''-i'', output_path @ ''.concat.txt'', ''-c'', ''copy'', ''-movflags'', ''+faststart'', ''-y'', output_path]"

subsection \<open>The cache directory\<close>

record dir_entry =
  de_name :: string
  de_isfile :: bool
  de_stat :: "(int \<times> rat) option"

text \<open>No value: the path is no directory, or listing it fails.\<close>

type_synonym directory = "dir_entry list option"

definition path_join :: "string \<Rightarrow> string \<Rightarrow> string" where
  "path_join d n = (if d = [] \<or> last d = CHR ''/'' then d @ n else d @ ''/'' @ n)"

definition segment_of :: "string \<Rightarrow> dir_entry \<Rightarrow> (string \<times> rat) option" where
  "segment_of cam_dir e =
     (if \<not> de_isfile e then None
      else case de_stat e of
        None \<Rightarrow> None
      | Some (bytes_on_disk, mtime) \<Rightarrow>
          if bytes_on_disk < PREROLL_MIN_SIZE_BYTES then None else Some (path_join cam_dir (de_name e), mtime))"

definition list_preroll_segments :: "string \<Rightarrow> directory \<Rightarrow> (string \<times> rat) list" where
  "list_preroll_segments cam_dir d =
     (case d of None \<Rightarrow> [] | Some es \<Rightarrow> sort_key snd (List.map_filter (segment_of cam_dir) es))"

definition newest_preroll_path :: "string \<Rightarrow> directory \<Rightarrow> string option" where
  "newest_preroll_path cam_dir d =
     (let segs = list_preroll_segments cam_dir d in if segs \<noteq> [] then Some (fst (last segs)) else None)"

definition unlink :: "string \<Rightarrow> string \<Rightarrow> directory \<Rightarrow> directory" where
  "unlink cam_dir path d = map_option (filter (\<lambda>e. path_join cam_dir (de_name e) \<noteq> path)) d"

fun unlink_all :: "(string \<Rightarrow> bool) \<Rightarrow> string \<Rightarrow> (string \<times> rat) list \<Rightarrow> directory \<Rightarrow> nat \<times> directory" where
  "unlink_all refused cam_dir [] d = (0, d)"
| "unlink_all refused cam_dir ((path, _) # rest) d =
     (if refused path then unlink_all refused cam_dir rest d
      else let (n, d') = unlink_all refused cam_dir rest (unlink cam_dir path d) in (n + 1, d'))"

definition prune_preroll_cache :: "(string \<Rightarrow> bool) \<Rightarrow> string \<Rightarrow> int \<Rightarrow> directory \<Rightarrow> nat \<times> directory" where
  "prune_preroll_cache refused cam_dir max_segments d =
     (let segs = list_preroll_segments cam_dir d;
          to_delete = take (nat (max 0 (int (length segs) - max_segments))) segs
      in unlink_all refused cam_dir to_delete d)"

definition prune_and_count :: "(string \<Rightarrow> bool) \<Rightarrow> string \<Rightarrow> int \<Rightarrow> directory \<Rightarrow> nat \<times> directory" where
  "prune_and_count refused cam_dir max_segments d =
     (let d' = snd (prune_preroll_cache refused cam_dir max_segments d)
      in (length (list_preroll_segments cam_dir d'), d'))"

subsection \<open>The ffprobe check\<close>

definition probe_args :: "string \<Rightarrow> string list" where
  "probe_args path =
     [''ffprobe'', ''-v'', ''error'', ''-show_entries'', ''format=duration'', ''-of'',
      ''default=noprint_wrappers=1:nokey=1'', path]"

text \<open>
  \<open>float(text)\<close> for ASCII text, as far as the sign of the result goes: no value for a ValueError. A
  magnitude of at most half the smallest subnormal number rounds to zero.
\<close>

fun sep_ok :: "string \<Rightarrow> bool" where
  "sep_ok (a # b # cs) \<longleftrightarrow> \<not> (a = CHR ''_'' \<and> b = CHR ''_'') \<and> sep_ok (b # cs)"
| "sep_ok _ \<longleftrightarrow> True"

text \<open>Digits with single underscores between digits.\<close>

definition digits_ok :: "string \<Rightarrow> bool" where
  "digits_ok s \<longleftrightarrow>
     s \<noteq> [] \<and> list_all (\<lambda>c. is_digit c \<or> c = CHR ''_'') s \<and> hd s \<noteq> CHR ''_'' \<and> last s \<noteq> CHR ''_'' \<and> sep_ok s"

definition digits_val :: "string \<Rightarrow> nat" where
  "digits_val s = fold (\<lambda>c n. 10 * n + (code c - 48)) (filter is_digit s) 0"

definition split_sign :: "string \<Rightarrow> bool \<times> string" where
  "split_sign s =
     (case s of
        c # cs \<Rightarrow> if c = CHR ''-'' then (True, cs) else if c = CHR ''+'' then (False, cs) else (False, s)
      | [] \<Rightarrow> (False, []))"

definition scale10 :: "rat \<Rightarrow> int \<Rightarrow> rat" where
  "scale10 q k = (if 0 \<le> k then q * 10 ^ nat k else q / 10 ^ nat (- k))"

definition mantissa :: "string \<Rightarrow> rat option" where
  "mantissa m =
     (let (a, dot, b) = partition_on (CHR ''.'') m in
      if (a = [] \<or> digits_ok a) \<and> (b = [] \<or> digits_ok b) \<and> (a \<noteq> [] \<or> b \<noteq> [])
      then Some (of_nat (digits_val a) + of_nat (digits_val b) / 10 ^ length (filter is_digit b))
      else None)"

definition decimal :: "string \<Rightarrow> rat option" where
  "decimal t =
     (let (m, e, x) = partition_on (CHR ''e'') t in
      if e = [] then mantissa m
      else let (neg, k) = split_sign x in
        if digits_ok k
        then map_option (\<lambda>q. scale10 q (if neg then - int (digits_val k) else int (digits_val k))) (mantissa m)
        else None)"

definition float_positive :: "string \<Rightarrow> bool option" where
  "float_positive s =
     (let (neg, t) = split_sign (lower (strip is_ascii_space s)) in
      if t = ''inf'' \<or> t = ''infinity'' then Some (\<not> neg)
      else if t = ''nan'' then Some False
      else map_option (\<lambda>q. \<not> neg \<and> 1 / 2 ^ 1075 < q) (decimal t))"

text \<open>
  What the process does: it cannot be started, it does not finish in time (then it is killed, and
  waiting for that is bounded as well), or it exits with a code and its output.
\<close>

datatype probe = NotStarted | TimedOut | Exited int bytes

definition newest_segment_is_finalized :: "probe \<Rightarrow> bool" where
  "newest_segment_is_finalized p =
     (case p of
        NotStarted \<Rightarrow> False
      | TimedOut \<Rightarrow> False
      | Exited returncode out \<Rightarrow>
          if returncode \<noteq> 0 then False else float_positive (chars out) = Some True)"

subsection \<open>Pruning\<close>

lemma path_join_inj: "path_join d a = path_join d b \<longleftrightarrow> a = b"
  by (simp add: path_join_def)

lemma segment_of_path: "segment_of cam_dir e = Some x \<Longrightarrow> fst x = path_join cam_dir (de_name e)"
  by (auto simp: segment_of_def split: if_splits option.splits)

lemma map_filter_eq: "List.map_filter f xs = map (the \<circ> f) (filter (\<lambda>x. f x \<noteq> None) xs)"
  by (induction xs) (auto simp: List.map_filter_simps split: option.split)

text \<open>The entries left by unlinking some paths, whichever of them the file system refuses.\<close>

definition without :: "string \<Rightarrow> string list \<Rightarrow> directory \<Rightarrow> directory" where
  "without cam_dir paths d = map_option (filter (\<lambda>e. path_join cam_dir (de_name e) \<notin> set paths)) d"

lemma without_unlink: "without cam_dir ps (unlink cam_dir p d) = without cam_dir (p # ps) d"
  by (cases d) (auto simp: without_def unlink_def intro: filter_cong)

lemma unlink_all_run:
  "unlink_all refused cam_dir segs d =
     (length (filter (\<lambda>s. \<not> refused (fst s)) segs),
      without cam_dir (map fst (filter (\<lambda>s. \<not> refused (fst s)) segs)) d)"
proof (induction segs arbitrary: d)
  case Nil
  show ?case by (cases d) (simp_all add: without_def)
next
  case (Cons s segs)
  then show ?case by (cases s) (simp add: without_unlink)
qed

text \<open>The entries a listing takes for segments, and their times.\<close>

definition whole :: "dir_entry \<Rightarrow> bool" where
  "whole e \<longleftrightarrow> de_isfile e \<and> (\<exists>bytes_on_disk mtime. de_stat e = Some (bytes_on_disk, mtime) \<and> 1024 \<le> bytes_on_disk)"

definition mtime_of :: "dir_entry \<Rightarrow> rat" where
  "mtime_of e = snd (the (de_stat e))"

lemma segment_of_whole:
  "segment_of cam_dir e = (if whole e then Some (path_join cam_dir (de_name e), mtime_of e) else None)"
  by (auto simp: segment_of_def whole_def mtime_of_def PREROLL_MIN_SIZE_BYTES_def split: option.split)

lemma insort_key_map: "insort_key g (f x) (map f xs) = map f (insort_key (\<lambda>y. g (f y)) x xs)"
  by (induction xs) simp_all

lemma sort_key_map: "sort_key g (map f xs) = map f (sort_key (\<lambda>y. g (f y)) xs)"
  by (induction xs) (simp_all add: insort_key_map)

lemma list_segments:
  "list_preroll_segments cam_dir (Some es) =
     map (\<lambda>e. (path_join cam_dir (de_name e), mtime_of e)) (sort_key mtime_of (filter whole es))"
proof -
  have "List.map_filter (segment_of cam_dir) es = map (\<lambda>e. (path_join cam_dir (de_name e), mtime_of e)) (filter whole es)"
    by (induction es) (simp_all add: List.map_filter_simps segment_of_whole)
  then show ?thesis by (simp add: list_preroll_segments_def sort_key_map comp_def)
qed

text \<open>Removing the paths of some entries removes those entries.\<close>

lemma without_entries:
  assumes "distinct (map de_name es)" "set gone \<subseteq> set es"
  shows "without cam_dir (map (\<lambda>e. path_join cam_dir (de_name e)) gone) (Some es) = Some (filter (\<lambda>e. e \<notin> set gone) es)"
proof -
  have "path_join cam_dir (de_name e) \<in> (\<lambda>g. path_join cam_dir (de_name g)) ` set gone \<longleftrightarrow> e \<in> set gone" if "e \<in> set es" for e
  proof -
    have "inj_on de_name (set es)" using assms(1) by (simp add: distinct_map)
    then have "g = e" if "g \<in> set gone" "de_name e = de_name g" for g
      using that assms(2) \<open>e \<in> set es\<close> by (metis inj_onD subsetD)
    then show ?thesis by (auto simp: path_join_inj)
  qed
  then show ?thesis by (auto simp: without_def intro!: filter_cong)
qed

lemma sorted_split:
  assumes "sorted (map f xs)" "x \<in> set (take n xs)" "y \<in> set xs - set (take n xs)"
  shows "f x \<le> f y"
proof -
  have "y \<in> set (drop n xs)" using assms(3) by (metis Diff_iff Un_iff append_take_drop_id set_append)
  moreover have "sorted (map f (take n xs) @ map f (drop n xs))" using assms(1) by (metis append_take_drop_id map_append)
  ultimately show ?thesis using assms(2) by (auto simp: sorted_append)
qed

subsection \<open>Printed durations\<close>

lemma digit_not: "is_digit c \<Longrightarrow> c \<noteq> CHR ''.'' \<and> c \<noteq> CHR ''e'' \<and> c \<noteq> CHR ''-'' \<and> c \<noteq> CHR ''+'' \<and> c \<noteq> CHR ''_'' \<and>
    c \<noteq> CHR ''i'' \<and> c \<noteq> CHR ''n'' \<and> \<not> is_upper c \<and> \<not> is_ascii_space c"
  by (auto simp: is_digit_def is_upper_def is_ascii_space_def code_def)

lemma digits_all_ok:
  assumes "list_all is_digit s" "s \<noteq> []"
  shows "digits_ok s"
proof -
  have "list_all is_digit t \<Longrightarrow> sep_ok t" for t
    by (induction t rule: sep_ok.induct) (auto dest: digit_not)
  moreover have "is_digit (hd s)" "is_digit (last s)" using assms by (auto simp: list_all_iff)
  ultimately show ?thesis using assms digit_not by (auto simp: digits_ok_def list_all_iff)
qed

lemma digits_val_zero:
  assumes "list_all is_digit s"
  shows "digits_val s = 0 \<longleftrightarrow> set s \<subseteq> {CHR ''0''}"
proof -
  have z: "code c \<le> 48 \<longleftrightarrow> c = CHR ''0''" if "is_digit c" for c
  proof -
    have "code c = 48 \<longleftrightarrow> c = CHR ''0''" using of_char_eq_iff [of c "CHR ''0''", where 'a = nat] by (simp add: code_def)
    with that show ?thesis by (auto simp: is_digit_def)
  qed
  then have "is_digit c \<Longrightarrow> code c - 48 = 0 \<longleftrightarrow> c = CHR ''0''" for c by simp
  note z = z this
  have "fold (\<lambda>c n. 10 * n + (code c - 48)) t n = 0 \<longleftrightarrow> n = 0 \<and> set t \<subseteq> {CHR ''0''}" if "list_all is_digit t" for t n
    using that by (induction t arbitrary: n) (auto simp: z)
  moreover have "filter is_digit s = s" using assms by (auto simp: list_all_iff intro: filter_True)
  ultimately show ?thesis using assms by (simp add: digits_val_def)
qed

text \<open>A number printed with at most 300 decimals is zero or far above what rounds to zero.\<close>

lemma printed_positive:
  assumes "list_all is_digit a" "list_all is_digit b" "length b \<le> 300"
  shows "(1 :: rat) / 2 ^ 1075 < of_nat (digits_val a) + of_nat (digits_val b) / 10 ^ length b \<longleftrightarrow> \<not> set (a @ b) \<subseteq> {CHR ''0''}"
proof (cases "digits_val a = 0 \<and> digits_val b = 0")
  case True
  with assms digits_val_zero have "set (a @ b) \<subseteq> {CHR ''0''}" by simp
  with True show ?thesis by simp
next
  case False
  let ?q = "of_nat (digits_val a) + of_nat (digits_val b) / 10 ^ length b :: rat"
  have p: "(10 :: rat) ^ length b \<le> 10 ^ 300" using assms(3) by (intro power_increasing) auto
  have "(1 :: rat) / 10 ^ 300 \<le> ?q"
  proof (cases "digits_val b = 0")
    case True
    with False have "(1 :: rat) \<le> of_nat (digits_val a)" by simp
    moreover have "(1 :: rat) / 10 ^ 300 \<le> 1" by simp
    ultimately show ?thesis using True by simp
  next
    case False
    have "(1 :: rat) / 10 ^ 300 \<le> 1 / 10 ^ length b" using p by (intro divide_left_mono) auto
    also have "\<dots> \<le> of_nat (digits_val b) / 10 ^ length b" using False by (intro divide_right_mono) auto
    also have "\<dots> \<le> ?q" by simp
    finally show ?thesis .
  qed
  moreover have "(1 :: rat) / 2 ^ 1075 < 1 / 10 ^ 300" by simp
  ultimately have "1 / 2 ^ 1075 < ?q" by linarith
  moreover have "\<not> set (a @ b) \<subseteq> {CHR ''0''}" using False digits_val_zero assms by auto
  ultimately show ?thesis by simp
qed

lemma float_positive_printed:
  assumes "list_all is_digit a" "list_all is_digit b" "a \<noteq> []" "b \<noteq> []" "length b \<le> 300"
  shows "float_positive (a @ CHR ''.'' # b @ [CHR 0x0A]) = Some (\<not> set (a @ b) \<subseteq> {CHR ''0''})"
proof -
  let ?t = "a @ CHR ''.'' # b"
  obtain c a' where a: "a = c # a'" "is_digit c" using assms by (cases a) auto
  obtain b' d where b: "b = b' @ [d]" "is_digit d" using assms by (cases b rule: rev_cases) auto
  have nl: "is_ascii_space (CHR 0x0A)" by (simp add: is_ascii_space_def code_def)
  have "strip is_ascii_space (?t @ [CHR 0x0A]) = ?t"
    using digit_not [OF a(2)] digit_not [OF b(2)] nl by (simp add: strip_def lstrip_def rstrip_def a b)
  moreover have "lower ?t = ?t"
  proof -
    have "\<not> is_upper (CHR ''.'')" by (simp add: is_upper_def code_def)
    then have "\<forall>c \<in> set ?t. to_lower c = c" using assms digit_not by (auto simp: list_all_iff to_lower_def)
    then show ?thesis by (simp add: lower_def map_idI)
  qed
  moreover have "split_sign ?t = (False, ?t)" using digit_not [OF a(2)] by (simp add: split_sign_def a)
  moreover have "?t \<noteq> ''inf'' \<and> ?t \<noteq> ''infinity'' \<and> ?t \<noteq> ''nan''" using digit_not [OF a(2)] by (simp add: a)
  moreover have "partition_on (CHR ''e'') ?t = (?t, [], [])"
    using assms digit_not by (intro partition_on_none) (auto simp: list_all_iff)
  moreover have "partition_on (CHR ''.'') ?t = (a, [CHR ''.''], b)"
    using assms digit_not by (intro partition_on_append) (auto simp: list_all_iff)
  moreover have "filter is_digit b = b" using assms by (auto simp: list_all_iff intro: filter_True)
  ultimately have "float_positive (?t @ [CHR 0x0A]) =
      Some (1 / 2 ^ 1075 < (of_nat (digits_val a) + of_nat (digits_val b) / 10 ^ length b :: rat))"
    using digits_all_ok assms by (simp add: float_positive_def decimal_def mantissa_def)
  then show ?thesis unfolding printed_positive [OF assms(1,2,5)] by simp
qed

subsection \<open>Properties\<close>

text \<open>C23
  Pruning deletes the oldest segments only. A segment is a regular file of the directory with a status
  and at least 1024 bytes. The entries chosen for deletion are segments, as many as exceed
  \<open>max_segments\<close>, and none of them was modified later than any segment that is not chosen; the
  directory afterwards is the one before without the chosen entries, but for those the file system
  refused to delete. The number returned is the number deleted, and \<open>prune_and_count\<close> returns the
  number of segments left.\<close>

theorem prune_keeps_newest:
  fixes es :: "dir_entry list" and max_segments :: int
  assumes "distinct (map de_name es)"
  shows "let segs = {e \<in> set es. de_isfile e \<and> (\<exists>b t. de_stat e = Some (b, t) \<and> 1024 \<le> b)};
        mtime = (\<lambda>e. snd (the (de_stat e))); path = (\<lambda>e. path_join cam_dir (de_name e)) in
    \<exists>old es'. prune_preroll_cache refused cam_dir max_segments (Some es) =
        (length (filter (\<lambda>e. \<not> refused (path e)) old), Some es') \<and>
      distinct old \<and> set old \<subseteq> segs \<and> length old = min (card segs) (nat (int (card segs) - max_segments)) \<and>
      (\<forall>e \<in> set old. \<forall>k \<in> segs - set old. mtime e \<le> mtime k) \<and>
      es' = filter (\<lambda>e. e \<notin> set old \<or> refused (path e)) es \<and>
      fst (prune_and_count refused cam_dir max_segments (Some es)) = card (segs \<inter> set es')"
proof -
  let ?path = "\<lambda>e. path_join cam_dir (de_name e)" and ?L = "sort_key mtime_of (filter whole es)"
  define n where "n = nat (max 0 (int (length ?L) - max_segments))"
  define old where "old = take n ?L"
  define gone where "gone = filter (\<lambda>e. \<not> refused (?path e)) old"
  define es' where "es' = filter (\<lambda>e. e \<notin> set old \<or> refused (?path e)) es"
  have d: "distinct es" using assms by (simp add: distinct_map)
  have segs: "{e \<in> set es. de_isfile e \<and> (\<exists>b t. de_stat e = Some (b, t) \<and> 1024 \<le> b)} = set ?L" by (auto simp: whole_def)
  have card: "card (set ?L) = length ?L" using d by (intro distinct_card) simp
  have old: "set old \<subseteq> set ?L" "distinct old" using d by (auto simp: old_def dest: in_set_takeD)
  then have "set gone \<subseteq> set es" by (auto simp: gone_def)
  have "filter (\<lambda>e. e \<notin> set gone) es = es'" unfolding es'_def gone_def by (intro filter_cong) auto
  with without_entries [OF assms \<open>set gone \<subseteq> set es\<close>, of cam_dir]
  have left: "without cam_dir (map ?path gone) (Some es) = Some es'" by simp
  have del: "filter (\<lambda>s. \<not> refused (fst s)) (map (\<lambda>e. (?path e, mtime_of e)) old) = map (\<lambda>e. (?path e, mtime_of e)) gone"
    by (simp add: gone_def filter_map comp_def)
  have "prune_preroll_cache refused cam_dir max_segments (Some es) =
      unlink_all refused cam_dir (map (\<lambda>e. (?path e, mtime_of e)) old) (Some es)"
    by (simp add: prune_preroll_cache_def Let_def list_segments take_map n_def old_def)
  then have run: "prune_preroll_cache refused cam_dir max_segments (Some es) = (length gone, Some es')"
    unfolding unlink_all_run del using left by (simp add: comp_def)
  have count: "fst (prune_and_count refused cam_dir max_segments (Some es)) = card (set ?L \<inter> set es')"
  proof -
    have "set (filter whole es') = set ?L \<inter> set es'" by (auto simp: es'_def)
    moreover have "distinct (filter whole es')" using d by (simp add: es'_def)
    ultimately show ?thesis using distinct_card [of "filter whole es'"] by (simp add: prune_and_count_def run list_segments)
  qed
  have "length old = min (length ?L) (nat (int (length ?L) - max_segments))" by (simp add: old_def n_def)
  moreover have "\<forall>e \<in> set old. \<forall>k \<in> set ?L - set old. mtime_of e \<le> mtime_of k"
    unfolding old_def using sorted_split [of mtime_of ?L] by simp
  ultimately show ?thesis
    unfolding Let_def segs card mtime_of_def [symmetric] using run old count
    by (intro exI [of _ old] exI [of _ es']) (simp add: gone_def es'_def)
qed

definition sample_entries :: "dir_entry list" where
  "sample_entries =
     [\<lparr>de_name = ''b.mp4'', de_isfile = True, de_stat = Some (4096, 20)\<rparr>,
      \<lparr>de_name = ''a.mp4'', de_isfile = True, de_stat = Some (4096, 10)\<rparr>,
      \<lparr>de_name = ''x.mp4'', de_isfile = True, de_stat = Some (12, 5)\<rparr>]"

text \<open>Of two segments the older is deleted when one may stay; the entry of twelve bytes is none.\<close>

theorem prune_keeps_newest_witness:
  "prune_preroll_cache (\<lambda>_. False) ''/r'' 1 (Some sample_entries) =
     (1, Some [\<lparr>de_name = ''b.mp4'', de_isfile = True, de_stat = Some (4096, 20)\<rparr>,
       \<lparr>de_name = ''x.mp4'', de_isfile = True, de_stat = Some (12, 5)\<rparr>])"
proof -
  let ?a = "\<lparr>de_name = ''a.mp4'', de_isfile = True, de_stat = Some (4096, 10)\<rparr> :: dir_entry"
  let ?b = "\<lparr>de_name = ''b.mp4'', de_isfile = True, de_stat = Some (4096, 20)\<rparr> :: dir_entry"
  have names: "distinct (map de_name sample_entries)" by (simp add: sample_entries_def)
  have ne: "?a \<noteq> ?b" by simp
  have segs: "{e \<in> set sample_entries. de_isfile e \<and> (\<exists>b t. de_stat e = Some (b, t) \<and> 1024 \<le> b)} = {?a, ?b}"
    by (auto simp: sample_entries_def)
  have card: "card {?a, ?b} = 2" using ne by (simp only: card_2_iff) blast
  have one: "min 2 (nat (int 2 - 1)) = 1" by simp
  from prune_keeps_newest [OF names, of "''/r''" "\<lambda>_. False" 1, unfolded Let_def segs card one]
  obtain old es' where p: "prune_preroll_cache (\<lambda>_. False) ''/r'' 1 (Some sample_entries) = (length (filter (\<lambda>_. \<not> False) old), Some es')"
    "set old \<subseteq> {?a, ?b}" "length old = 1" "\<forall>e \<in> set old. \<forall>k \<in> {?a, ?b} - set old. snd (the (de_stat e)) \<le> snd (the (de_stat k))"
    "es' = filter (\<lambda>e. e \<notin> set old \<or> False) sample_entries" by blast
  from p(3) obtain e where e: "old = [e]" by (metis length_0_conv length_Suc_conv One_nat_def)
  have "e \<noteq> ?b"
  proof
    assume b: "e = ?b"
    then have "?a \<in> {?a, ?b} - set old" using e ne by simp
    with p(4) b e have "snd (the (de_stat ?b)) \<le> snd (the (de_stat ?a))" by (metis list.set_intros(1))
    then show False by simp
  qed
  with p(2) e have "old = [?a]" by auto
  with p(1,5) show ?thesis by (simp add: sample_entries_def)
qed

text \<open>
  Segments too small to be whole are skipped, not discarded: every entry that is no listed segment, a
  corrupt one of under 1024 bytes above all, survives every prune.\<close>

lemma corrupt_segments_stay:
  fixes es :: "dir_entry list"
  assumes "distinct (map de_name es)" "e \<in> set es" "segment_of cam_dir e = None"
  shows "\<exists>es'. snd (prune_preroll_cache refused cam_dir max_segments (Some es)) = Some es' \<and> e \<in> set es'"
proof -
  have "path_join cam_dir (de_name e) \<notin> set (map fst (list_preroll_segments cam_dir (Some es)))"
  proof
    assume "path_join cam_dir (de_name e) \<in> set (map fst (list_preroll_segments cam_dir (Some es)))"
    then obtain e' x where e': "e' \<in> set es" "segment_of cam_dir e' = Some x" "fst x = path_join cam_dir (de_name e)"
      by (auto simp: list_preroll_segments_def map_filter_eq)
    with segment_of_path [OF e'(2)] have "de_name e' = de_name e" by (simp add: path_join_inj)
    with e' assms have "e' = e" by (metis distinct_map inj_onD)
    with e' assms(3) show False by simp
  qed
  with assms(2) show ?thesis
    by (auto simp: prune_preroll_cache_def Let_def unlink_all_run without_def dest: in_set_takeD)
qed

lemma corrupt_segments_stay_instance:
  "\<exists>es'. snd (prune_preroll_cache (\<lambda>_. False) ''/r'' 0 (Some sample_entries)) = Some es' \<and>
     \<lparr>de_name = ''x.mp4'', de_isfile = True, de_stat = Some (12, 5)\<rparr> \<in> set es'"
  unfolding sample_entries_def
  by (rule corrupt_segments_stay) (simp_all add: segment_of_def PREROLL_MIN_SIZE_BYTES_def)

text \<open>C37
  The finalization check reads ffprobe's answer right: for a duration printed in decimals, a segment
  counts as finalized exactly when the process exits with 0 and some digit is not zero; a process that
  does not start, times out or exits with another code never does.\<close>

theorem finalized_iff_positive_duration:
  assumes "list_all is_digit a" "list_all is_digit b" "a \<noteq> []" "b \<noteq> []" "length b \<le> 300"
  shows "(newest_segment_is_finalized (Exited rc (b_lit (a @ CHR ''.'' # b @ [CHR 0x0A]))) \<longleftrightarrow>
      rc = 0 \<and> \<not> set (a @ b) \<subseteq> {CHR ''0''}) \<and>
    \<not> newest_segment_is_finalized NotStarted \<and> \<not> newest_segment_is_finalized TimedOut"
  unfolding newest_segment_is_finalized_def
  by (simp only: probe.case chars_b_lit float_positive_printed [OF assms]) auto

theorem finalized_iff_positive_duration_witness:
  "newest_segment_is_finalized (Exited 0 (b_lit (''12'' @ CHR ''.'' # ''345000'' @ [CHR 0x0A])))"
  using finalized_iff_positive_duration [of "''12''" "''345000''" 0] by (simp add: is_digit_def code_def)

subsection \<open>The instance number of a URL\<close>

text \<open>
  The low quality asks for instance 4: the instance number of a URL that has one is replaced and
  nothing else, a URL without one gets the parameter appended, and any other quality leaves the URL as
  it is; this URL is what follows -i in both recording commands.
\<close>

lemma apply_quality_parts:
  assumes "\<not> contains ''inst='' pre" "\<not> contains ''inst='' post" "list_all is_digit n" "n \<noteq> []"
    "post = [] \<or> \<not> is_digit (hd post)" "\<not> contains ''inst='' url" "q \<noteq> ''low''"
  shows "apply_quality (pre @ ''inst='' @ n @ post) ''low'' = pre @ ''inst=4'' @ post \<and>
    apply_quality url ''low'' = url @ (if CHR ''?'' \<in> set url then ''&'' else ''?'') @ ''inst=4'' \<and>
    apply_quality url q = url \<and>
    build_ffmpeg_args url p k q ! 12 = url \<and> build_preroll_ffmpeg_args url p k q ! 12 = url"
proof -
  let ?l = "CHR ''i'' # ''nst=''" and ?s = "pre @ ''inst='' @ n @ post"
  have "rx_search inst_rx [] (pre @ ?l @ n @ post) = rx_search inst_rx (rev pre @ []) (?l @ n @ post)"
    using assms(1) unfolding inst_rx_def by (rule rx_search_skip_lit) simp
  moreover have "\<exists>ms. rx_run inst_rx (rev pre, ?l @ n @ post, []) = (rev n @ rev ?l @ rev pre, post, []) # ms"
    unfolding inst_rx_def
    using assms by (intro rx_run_lit_first rx_run_plus_first) (auto simp: list_all_iff)
  ultimately have "rx_search inst_rx [] (pre @ (?l @ n) @ post) = Some (rev pre @ [], rev (?l @ n) @ rev pre @ [], post, [])"
    by (auto simp: rx_search_hit)
  from rx_sub_hit [OF this] have "rx_sub inst_rx (\<lambda>_. ''inst=4'') [] ?s =
      pre @ ''inst=4'' @ rx_sub inst_rx (\<lambda>_. ''inst=4'') (rev (?l @ n) @ rev pre @ []) post" by simp
  moreover have "rx_search inst_rx p post = None" for p
    using assms(2) unfolding inst_rx_def by (rule rx_search_no_lit) simp
  moreover have "contains ''inst='' ?s" unfolding contains_iff by (intro exI) (rule refl)
  ultimately show ?thesis
    using assms(6,7) by (simp add: apply_quality_def rx_sub_none build_ffmpeg_args_def build_preroll_ffmpeg_args_def)
qed

end
