(* ===== verification/LocalRcp.thy ===== *)
theory LocalRcp
  imports Utext
begin

section \<open>RCP over XML\<close>

text \<open>
  \<open>local_rcp.py\<close>: the parser of RCP answers in XML and the two synchronous readers. The XML parser
  of \<open>defusedxml\<close>, the opener of \<open>urllib\<close> and the Unicode table of decimal digits beyond ASCII are
  parameters; the element path \<open>.//result/x\<close>, the conversions of the texts and the error handling are
  the code's.
\<close>

subsection \<open>Elements\<close>

datatype elem = Elem (el_tag: ustring) (el_text: "ustring option") (el_kids: "elem list")

text \<open>What the parser does with a text: it is not XML, it raises something else, or gives the root.\<close>

datatype xml_result = NotXml | XmlRaises exn | Parsed elem

text \<open>The elements below a root, in document order.\<close>

fun below :: "elem \<Rightarrow> elem list" where
  "below (Elem t x ks) = concat (map (\<lambda>k. k # below k) ks)"

text \<open>\<open>root.find(".//result/x")\<close>\<close>

definition find_result :: "string \<Rightarrow> elem \<Rightarrow> elem option" where
  "find_result x root =
     find (\<lambda>k. el_tag k = ustr x)
       (concat (map el_kids (filter (\<lambda>e. el_tag e = ustr ''result'') (below root))))"

subsection \<open>int(text)\<close>

definition udigit :: "(nat \<Rightarrow> nat option) \<Rightarrow> nat \<Rightarrow> nat option" where
  "udigit other u = (if 48 \<le> u \<and> u \<le> 57 then Some (u - 48) else if u < 128 then None else other u)"

fun single_underscores :: "ustring \<Rightarrow> bool" where
  "single_underscores (a # b # s) \<longleftrightarrow> \<not> (a = 95 \<and> b = 95) \<and> single_underscores (b # s)"
| "single_underscores _ \<longleftrightarrow> True"

definition INT_MAX_STR_DIGITS :: nat where
  "INT_MAX_STR_DIGITS = 4300"

text \<open>No value for a ValueError: what is no decimal number, or one of more digits than the interpreter allows.\<close>

definition natural :: "(nat \<Rightarrow> nat option) \<Rightarrow> ustring \<Rightarrow> nat option" where
  "natural other s =
     (let ds = List.map_filter (udigit other) s in
      if s \<noteq> [] \<and> list_all (\<lambda>u. u = 95 \<or> udigit other u \<noteq> None) s \<and> hd s \<noteq> 95 \<and> last s \<noteq> 95 \<and>
         single_underscores s \<and> length ds \<le> INT_MAX_STR_DIGITS
      then Some (fold (\<lambda>d n. 10 * n + d) ds 0) else None)"

definition py_int :: "(nat \<Rightarrow> nat option) \<Rightarrow> ustring \<Rightarrow> int option" where
  "py_int other s =
     (case ustrip s of
        u # t \<Rightarrow>
          if u = 45 then map_option (\<lambda>n. - int n) (natural other t)
          else if u = 43 then map_option int (natural other t)
          else map_option int (natural other (u # t))
      | [] \<Rightarrow> None)"

text \<open>\<open>bytes.fromhex\<close> of text.\<close>

definition fromhex_text :: "ustring \<Rightarrow> exn + bytes" where
  "fromhex_text t = (if list_all (\<lambda>u. u < 128) t then from_hex (map char_of t) else Inl (ValueError ''fromhex''))"

subsection \<open>The parser of answers\<close>

datatype rcp_value = VInt int | VBytes bytes | VText ustring

definition parse_rcp_xml ::
    "(ustring \<Rightarrow> xml_result) \<Rightarrow> (nat \<Rightarrow> nat option) \<Rightarrow> ustring \<Rightarrow> string \<Rightarrow> exn + rcp_value option" where
  "parse_rcp_xml xml other text tp =
     (case xml text of
        NotXml \<Rightarrow> Inr None
      | XmlRaises e \<Rightarrow> Inl e
      | Parsed root \<Rightarrow>
          if find_result ''err'' root \<noteq> None then Inr None
          else if tp = ''T_WORD'' \<or> tp = ''T_DWORD'' \<or> tp = ''T_BYTE'' then
            (case find_result ''dec'' root of
               None \<Rightarrow> Inr None
             | Some d \<Rightarrow>
                 (case el_text d of
                    None \<Rightarrow> Inr None
                  | Some t \<Rightarrow> Inr (if t = [] then None else map_option VInt (py_int other (ustrip t)))))
          else if tp = ''P_STRING'' then
            (case find_result ''str'' root of
               None \<Rightarrow> Inr None
             | Some s \<Rightarrow> Inr (map_option VText (el_text s)))
          else if tp = ''P_OCTET'' then
            (case find_result ''str'' root of
               None \<Rightarrow> Inr None
             | Some s \<Rightarrow>
                 (case el_text s of
                    None \<Rightarrow> Inr None
                  | Some t \<Rightarrow>
                      if t = [] then Inr None
                      else (case fromhex_text (replace_all [32] [] t) of
                              Inl e \<Rightarrow> Inr None
                            | Inr bs \<Rightarrow> Inr (Some (VBytes bs)))))
          else Inr None)"

subsection \<open>The readers\<close>

text \<open>
  The opener gets the URL and the credentials for a Digest challenge, if any, and raises or gives the
  status and what reading the body gives.
\<close>

type_synonym opener = "string \<Rightarrow> (string \<times> string) option \<Rightarrow> exn + int \<times> (exn + bytes)"

text \<open>\<open>except (urllib.error.URLError, OSError, ValueError)\<close>; a timeout is an OSError.\<close>

fun is_read_error :: "exn \<Rightarrow> bool" where
  "is_read_error TimeoutError = True"
| "is_read_error OSError = True"
| "is_read_error (ValueError _) = True"
| "is_read_error _ = False"

definition caught :: "exn + 'a option \<Rightarrow> exn + 'a option" where
  "caught r = (case r of Inl e \<Rightarrow> if is_read_error e then Inr None else Inl e | Inr x \<Rightarrow> Inr x)"

definition read_answer ::
    "(ustring \<Rightarrow> xml_result) \<Rightarrow> (nat \<Rightarrow> nat option) \<Rightarrow> exn + int \<times> (exn + bytes) \<Rightarrow> string \<Rightarrow> exn + rcp_value option" where
  "read_answer xml other answer tp =
     caught
       (case answer of
          Inl e \<Rightarrow> Inl e
        | Inr (status, content) \<Rightarrow>
            if status \<noteq> 200 then Inr None
            else (case content of Inl e \<Rightarrow> Inl e | Inr bs \<Rightarrow> parse_rcp_xml xml other (utf8_replace bs) tp))"

definition read_url :: "string \<Rightarrow> string \<Rightarrow> string \<Rightarrow> string" where
  "read_url host command tp =
     ''https://'' @ host @ ''/rcp.xml?command='' @ command @ ''&type='' @ tp @ ''&direction=READ&num=1&payload=''"

definition rcp_read_local_sync ::
    "opener \<Rightarrow> (ustring \<Rightarrow> xml_result) \<Rightarrow> (nat \<Rightarrow> nat option) \<Rightarrow> string \<Rightarrow> string \<Rightarrow> string \<Rightarrow> string \<Rightarrow> string \<Rightarrow> exn + rcp_value option" where
  "rcp_read_local_sync open xml other host user pwd command tp =
     read_answer xml other (open (read_url host command tp) (Some (user, pwd))) tp"

definition rcp_read_remote_sync ::
    "opener \<Rightarrow> (ustring \<Rightarrow> xml_result) \<Rightarrow> (nat \<Rightarrow> nat option) \<Rightarrow> string \<Rightarrow> string \<Rightarrow> string \<Rightarrow> exn + rcp_value option" where
  "rcp_read_remote_sync open xml other proxy_url_with_hash command tp =
     read_answer xml other (open (read_url proxy_url_with_hash command tp) None) tp"

subsection \<open>Decimal and hexadecimal texts\<close>

declare ustr_simps(2) [simp del]

lemma udigit_code: "is_digit c \<Longrightarrow> udigit other (code c) = Some (code c - 48)"
  by (simp add: udigit_def is_digit_def)

lemma nat_str_value: "fold (\<lambda>d n. 10 * n + d) (map (\<lambda>c. code c - 48) (nat_str n)) 0 = n"
proof (induction n rule: nat_str.induct)
  case (1 n)
  show ?case
  proof (cases "n < 10")
    case True
    then show ?thesis by (subst nat_str.simps) simp
  next
    case False
    moreover have "code (char_of (48 + n mod 10)) = 48 + n mod 10"
      using mod_less_divisor [of 10 n] by (intro code_char_of) linarith
    ultimately show ?thesis using 1 by (subst nat_str.simps) simp
  qed
qed

lemma natural_digits:
  assumes "list_all is_digit s" "s \<noteq> []" "length s \<le> INT_MAX_STR_DIGITS"
  shows "natural other (ustr s) = Some (fold (\<lambda>d n. 10 * n + d) (map (\<lambda>c. code c - 48) s) 0)"
proof -
  have "List.map_filter (udigit other) (ustr t) = map (\<lambda>c. code c - 48) t" if "list_all is_digit t" for t
    using that by (induction t) (simp_all add: ustr_simps List.map_filter_simps udigit_code)
  note ds = this [OF assms(1)]
  have n95: "u \<noteq> 95 \<and> udigit other u \<noteq> None" if "u \<in> set (ustr s)" for u
    using that assms(1) by (auto simp: ustr_def list_all_iff is_digit_def udigit_def)
  moreover have "95 \<notin> set t \<Longrightarrow> single_underscores t" for t by (induction t rule: single_underscores.induct) auto
  moreover have "hd (ustr s) \<in> set (ustr s)" "last (ustr s) \<in> set (ustr s)" using assms(2) by simp_all
  ultimately show ?thesis using assms by (auto simp: natural_def ds list_all_iff Let_def)
qed

lemma ustrip_pad:
  assumes "list_all is_uspace a" "list_all is_uspace b" "s \<noteq> []" "\<not> is_uspace (hd s)" "\<not> is_uspace (last s)"
  shows "ustrip (a @ s @ b) = s"
proof -
  have "dropWhile is_uspace (a @ s @ b) = s @ b" using assms by (cases s) (auto simp: list_all_iff dropWhile_append)
  moreover have "dropWhile is_uspace (rev (s @ b)) = rev s"
    using assms by (cases s rule: rev_cases) (auto simp: list_all_iff dropWhile_append)
  ultimately show ?thesis by (simp add: ustrip_def strip_def lstrip_def rstrip_def)
qed

lemma py_int_str:
  assumes "length (nat_str (nat \<bar>v\<bar>)) \<le> INT_MAX_STR_DIGITS" "list_all is_uspace a" "list_all is_uspace b"
  shows "ustrip (a @ ustr (int_str v) @ b) = ustr (int_str v)" "py_int other (ustr (int_str v)) = Some v"
proof -
  let ?ds = "nat_str (nat \<bar>v\<bar>)"
  note d = nat_str_digits [of "nat \<bar>v\<bar>"]
  have nospace: "\<not> is_uspace (code c)" if "is_digit c \<or> c = CHR ''-''" for c
    using that by (auto simp: is_digit_def is_uspace_def code_def)
  have s: "int_str v = (if v < 0 then CHR ''-'' # ?ds else ?ds)" by (simp add: int_str_def)
  have hl: "hd (ustr (int_str v)) = code (hd (int_str v))" "last (ustr (int_str v)) = code (last (int_str v))" "ustr (int_str v) \<noteq> []"
    using nat_str_digits by (simp_all add: int_str_def ustr_def hd_map last_map)
  have "is_digit (hd (int_str v)) \<or> hd (int_str v) = CHR ''-''" "is_digit (last (int_str v))"
    using nat_str_digits [of "nat v"] nat_str_digits [of "nat (- v)"] by (auto simp: int_str_def list_all_iff)
  then have "\<not> is_uspace (hd (ustr (int_str v)))" "\<not> is_uspace (last (ustr (int_str v)))"
    unfolding hl using nospace by blast+
  note strip = ustrip_pad [OF _ _ hl(3) this]
  show "ustrip (a @ ustr (int_str v) @ b) = ustr (int_str v)" by (rule strip [OF assms(2,3)])
  have st: "ustrip (ustr (int_str v)) = ustr (int_str v)" using strip [of "[]" "[]"] by simp
  have n: "natural other (ustr ?ds) = Some (nat \<bar>v\<bar>)"
    using natural_digits [of ?ds other] d assms(1) nat_str_value by simp
  obtain c cs where c: "?ds = c # cs" "is_digit c" using d by (cases ?ds) auto
  then have "code c \<noteq> 45" "code c \<noteq> 43" by (auto simp: is_digit_def)
  moreover have "code (CHR ''-'') = 45" by (simp add: code_def)
  ultimately show "py_int other (ustr (int_str v)) = Some v"
    unfolding py_int_def st using n c by (cases "v < 0") (simp_all add: s ustr_simps)
qed

text \<open>Bytes in hexadecimal, separated by spaces as the cameras print them.\<close>

definition spaced_hex :: "bytes \<Rightarrow> string" where
  "spaced_hex bs = join_with '' '' (map (\<lambda>b. to_hex [b]) bs)"

lemma replace_spaces: "replace_all [32] [] s = filter (\<lambda>u. u \<noteq> 32) s"
  by (induction s) (auto simp: starts_with_def)

lemma hex_code: "is_hex c \<Longrightarrow> code c \<noteq> 32 \<and> code c < 128"
  by (auto simp: is_hex_def hex_val_def is_digit_def split: if_splits)

lemma spaced_hex_filter: "filter (\<lambda>u. u \<noteq> 32) (ustr (spaced_hex bs)) = ustr (to_hex bs)"
proof -
  have h: "filter (\<lambda>u. u \<noteq> 32) (ustr (to_hex bs)) = ustr (to_hex bs)" for bs
    using set_to_hex hex_code by (intro filter_True) (fastforce simp: ustr_def)
  show ?thesis unfolding spaced_hex_def
  proof (induction bs rule: induct_list012)
    case (3 a b bs)
    have sp: "filter (\<lambda>u. u \<noteq> 32) (ustr '' '') = []" by (simp add: ustr_simps code_def)
    have "to_hex (a # b # bs) = to_hex [a] @ to_hex (b # bs)" by simp
    moreover have "filter (\<lambda>u. u \<noteq> 32) (ustr (to_hex [a] @ '' '' @ join_with '' '' (map (\<lambda>b. to_hex [b]) (b # bs)))) =
        ustr (to_hex [a]) @ ustr (to_hex (b # bs))"
      by (simp only: ustr_append filter_append h sp 3(2) append_Nil)
    ultimately show ?case by (simp only: list.map join_with.simps ustr_append)
  qed (simp_all only: list.map join_with.simps h, simp_all)
qed

lemma fromhex_spaced: "fromhex_text (replace_all [32] [] (ustr (spaced_hex bs))) = Inr bs"
proof -
  have "list_all (\<lambda>u. u < 128) (ustr (to_hex bs))"
    using set_to_hex hex_code by (fastforce simp: ustr_def list_all_iff)
  moreover have "map char_of (ustr (to_hex bs)) = to_hex bs" by (simp add: ustr_def code_def comp_def)
  ultimately show ?thesis by (simp add: replace_spaces spaced_hex_filter fromhex_text_def)
qed

subsection \<open>Properties\<close>

definition rcp_answer_doc :: "elem list \<Rightarrow> elem" where
  "rcp_answer_doc content =
     Elem (ustr ''rcp'') None
       [Elem (ustr ''command'') None [Elem (ustr ''hex'') (Some (ustr ''0x0c22'')) []],
        Elem (ustr ''type'') (Some (ustr ''T_WORD'')) [],
        Elem (ustr ''result'') None content]"

definition leaf :: "string \<Rightarrow> ustring \<Rightarrow> elem" where
  "leaf tag t = Elem (ustr tag) (Some t) []"

lemma ustr_eq [simp]: "ustr s = ustr t \<longleftrightarrow> s = t"
proof -
  have "inj code" by (simp add: inj_def code_def)
  then show ?thesis by (simp add: ustr_def inj_map_eq_map)
qed

lemma find_result_doc:
  "find_result x (rcp_answer_doc [leaf tag t]) = (if tag = x then Some (leaf tag t) else None)"
  by (auto simp: find_result_def rcp_answer_doc_def leaf_def)

text \<open>C26
  Answers round-trip: an integer a camera prints in decimal, with white space around it, is read back
  as that integer under each of the three word types, for either sign and any size Python converts; a
  text is read back as that text under P_STRING, even when it looks like hexadecimal; bytes printed as
  space-separated hexadecimal are read back as those bytes under P_OCTET.\<close>

theorem rcp_xml_roundtrip:
  assumes "list_all is_uspace a" "list_all is_uspace b" "length (nat_str (nat \<bar>v\<bar>)) \<le> 4300"
    "xml word_text = Parsed (rcp_answer_doc [leaf ''dec'' (a @ ustr (int_str v) @ b)])"
    "xml string_text = Parsed (rcp_answer_doc [leaf ''str'' s])"
    "xml octet_text = Parsed (rcp_answer_doc [leaf ''str'' (ustr (spaced_hex bs))])" "bs \<noteq> []"
  shows "parse_rcp_xml xml other word_text ''T_WORD'' = Inr (Some (VInt v)) \<and>
    parse_rcp_xml xml other word_text ''T_DWORD'' = Inr (Some (VInt v)) \<and>
    parse_rcp_xml xml other word_text ''T_BYTE'' = Inr (Some (VInt v)) \<and>
    parse_rcp_xml xml other string_text ''P_STRING'' = Inr (Some (VText s)) \<and>
    parse_rcp_xml xml other octet_text ''P_OCTET'' = Inr (Some (VBytes bs))"
proof -
  have digits: "length (nat_str (nat \<bar>v\<bar>)) \<le> INT_MAX_STR_DIGITS" using assms(3) by (simp add: INT_MAX_STR_DIGITS_def)
  have "a @ ustr (int_str v) @ b \<noteq> []" using nat_str_digits by (simp add: int_str_def ustr_def)
  moreover have "ustr (spaced_hex bs) \<noteq> []"
    using assms(7) by (cases bs rule: list.exhaust; cases "tl bs") (auto simp: spaced_hex_def ustr_def)
  ultimately show ?thesis
    using assms digits by (simp add: parse_rcp_xml_def find_result_doc py_int_str fromhex_spaced) (simp add: leaf_def py_int_str fromhex_spaced)
qed

text \<open>A document per text: a number with a space before and a line feed after it, a text, two bytes.\<close>

definition sample_answers :: "ustring \<Rightarrow> xml_result" where
  "sample_answers t = Parsed (rcp_answer_doc
     [if t = [0] then leaf ''dec'' ([32] @ ustr (int_str (- 7)) @ [10])
      else if t = [1] then leaf ''str'' (ustr ''Garage 12'')
      else leaf ''str'' (ustr (spaced_hex [0, 255]))])"

theorem rcp_xml_roundtrip_witness:
  "parse_rcp_xml sample_answers (\<lambda>_. None) [0] ''T_WORD'' = Inr (Some (VInt (- 7))) \<and>
   parse_rcp_xml sample_answers (\<lambda>_. None) [0] ''T_BYTE'' = Inr (Some (VInt (- 7))) \<and>
   parse_rcp_xml sample_answers (\<lambda>_. None) [1] ''P_STRING'' = Inr (Some (VText (ustr ''Garage 12''))) \<and>
   parse_rcp_xml sample_answers (\<lambda>_. None) [2] ''P_OCTET'' = Inr (Some (VBytes [0, 255]))"
proof -
  have "list_all is_uspace [32]" "list_all is_uspace [10]" "length (nat_str (nat \<bar>- 7\<bar>)) \<le> 4300"
    by (simp_all add: is_uspace_def nat_str.simps)
  moreover have "sample_answers [0] = Parsed (rcp_answer_doc [leaf ''dec'' ([32] @ ustr (int_str (- 7)) @ [10])])"
    "sample_answers [1] = Parsed (rcp_answer_doc [leaf ''str'' (ustr ''Garage 12'')])"
    "sample_answers [2] = Parsed (rcp_answer_doc [leaf ''str'' (ustr (spaced_hex [0, 255]))])"
    by (simp_all add: sample_answers_def)
  ultimately show ?thesis
    using rcp_xml_roundtrip [of "[32]" "[10]" "- 7" sample_answers "[0]" "[1]" "ustr ''Garage 12''" "[2]" "[0, 255]" "\<lambda>_. None"]
    by simp
qed

text \<open>
  What a reader returns has the kind of the type it asked for: an integer for the word types, text for
  P_STRING, bytes for P_OCTET, nothing for any other type, and nothing when the result has an error.\<close>

lemma rcp_value_kind:
  assumes "parse_rcp_xml xml other text tp = Inr (Some v)"
  shows "\<exists>root. xml text = Parsed root \<and> find_result ''err'' root = None \<and>
    (case v of
       VInt i \<Rightarrow> tp \<in> {''T_WORD'', ''T_DWORD'', ''T_BYTE''}
     | VText t \<Rightarrow> tp = ''P_STRING''
     | VBytes bs \<Rightarrow> tp = ''P_OCTET'')"
proof (cases "xml text")
  case (Parsed root)
  with assms show ?thesis
    by (auto simp: parse_rcp_xml_def split: if_splits option.splits sum.splits)
qed (use assms in \<open>simp_all add: parse_rcp_xml_def\<close>)

lemma rcp_value_kind_instance:
  "\<exists>root. (\<lambda>_. Parsed (rcp_answer_doc [leaf ''str'' (ustr ''x'')])) [0] = Parsed root \<and> find_result ''err'' root = None"
proof -
  have "parse_rcp_xml (\<lambda>_. Parsed (rcp_answer_doc [leaf ''str'' (ustr ''x'')])) (\<lambda>_. None) [0] ''P_STRING'' = Inr (Some (VText (ustr ''x'')))"
    by (simp add: parse_rcp_xml_def find_result_doc) (simp add: leaf_def)
  from rcp_value_kind [OF this] show ?thesis by blast
qed

lemma parse_raises_iff: "parse_rcp_xml xml other text tp = Inl e \<longleftrightarrow> xml text = XmlRaises e"
  by (auto simp: parse_rcp_xml_def split: xml_result.splits option.splits sum.splits)

lemma is_read_error_iff: "is_read_error e \<longleftrightarrow> e = TimeoutError \<or> e = OSError \<or> (\<exists>m. e = ValueError m)"
  by (cases e) simp_all

lemma read_answer_raises:
  "read_answer xml other answer tp = Inl e \<longleftrightarrow>
     \<not> is_read_error e \<and>
     (answer = Inl e \<or> answer = Inr (200, Inl e) \<or>
      (\<exists>bs. answer = Inr (200, Inr bs) \<and> xml (utf8_replace bs) = XmlRaises e))"
  unfolding parse_raises_iff [of xml other _ tp, symmetric]
  by (auto simp: read_answer_def caught_def split: sum.splits if_splits)

lemma read_answer_value:
  "read_answer xml other answer tp = Inr (Some v) \<longleftrightarrow>
     (\<exists>bs. answer = Inr (200, Inr bs) \<and> parse_rcp_xml xml other (utf8_replace bs) tp = Inr (Some v))"
  by (auto simp: read_answer_def caught_def split: sum.splits if_splits)

text \<open>C38
  What the two readers raise and return. Each raises an exception exactly when the opener, the reading
  of a 200 body or the XML parser raised it and it is no time-out, OSError or ValueError; each returns
  a value exactly when a 200 body parses to it; in every other case the answer is None. So an HTTP
  client error that is no OSError, such as a bad status line, reaches the caller of either reader,
  although they are documented to return None on any failure. The local reader gives the opener the
  credentials, the remote one none.\<close>

theorem rcp_reader_errors:
  "let url = (\<lambda>at. ''https://'' @ at @ ''/rcp.xml?command='' @ command @ ''&type='' @ tp @ ''&direction=READ&num=1&payload='');
       raised = (\<lambda>answer. e \<noteq> TimeoutError \<and> e \<noteq> OSError \<and> (\<nexists>m. e = ValueError m) \<and>
         (answer = Inl e \<or> answer = Inr (200, Inl e) \<or>
          (\<exists>bs. answer = Inr (200, Inr bs) \<and> xml (utf8_replace bs) = XmlRaises e)));
       parsed = (\<lambda>answer. \<exists>bs. answer = Inr (200, Inr bs) \<and> parse_rcp_xml xml other (utf8_replace bs) tp = Inr (Some v))
   in (rcp_read_local_sync open xml other host user pwd command tp = Inl e \<longleftrightarrow> raised (open (url host) (Some (user, pwd)))) \<and>
      (rcp_read_remote_sync open xml other proxy command tp = Inl e \<longleftrightarrow> raised (open (url proxy) None)) \<and>
      (rcp_read_local_sync open xml other host user pwd command tp = Inr (Some v) \<longleftrightarrow> parsed (open (url host) (Some (user, pwd)))) \<and>
      (rcp_read_remote_sync open xml other proxy command tp = Inr (Some v) \<longleftrightarrow> parsed (open (url proxy) None))"
  unfolding Let_def rcp_read_local_sync_def rcp_read_remote_sync_def read_answer_raises read_answer_value is_read_error_iff read_url_def
  by blast

end
